theory Spec2Isabelle
  imports Main
begin

section \<open>The Quoridor rules engine of \<^verbatim>\<open>src/dist/index.js\<close>\<close>

subsection \<open>Data model\<close>

text \<open>
  The only exception the engine can raise is JavaScript's \<^verbatim>\<open>TypeError\<close>, on reading or
  writing a property of \<^verbatim>\<open>undefined\<close> (a player index other than 0 and 1, a board column
  that does not exist).
\<close>

datatype error = TypeError

text \<open>Wall orientation is the string \<^verbatim>\<open>'h'\<close> or \<^verbatim>\<open>'v'\<close>; a move's type is \<^verbatim>\<open>'normal'\<close> or
  \<^verbatim>\<open>'jump'\<close>.\<close>

datatype orientation = H | V

datatype moveType = Normal | Jump

text \<open>A wall object \<^verbatim>\<open>{ x, y, orientation }\<close>.\<close>

record wall =
  wx :: int
  wy :: int
  orientation :: orientation

text \<open>A player object \<^verbatim>\<open>{ id, x, y, walls }\<close>.\<close>

record player =
  pid :: int
  px :: int
  py :: int
  pwalls :: int

text \<open>A move object \<^verbatim>\<open>{ x, y, type }\<close>.\<close>

record move =
  mx :: int
  my :: int
  mtype :: moveType

text \<open>
  The board is an array of columns, \<^verbatim>\<open>board[x][y]\<close>. A column is modelled by its indexed
  elements; \<open>None\<close> is a hole, which reads as \<^verbatim>\<open>undefined\<close>.
\<close>

type_synonym board = "int option list list"

text \<open>
  The state object. \<^verbatim>\<open>players\<close> is the two-element array of the source, a pair here;
  \<^verbatim>\<open>null\<close> is \<open>None\<close>.
\<close>

record state =
  board :: board
  players :: "player \<times> player"
  walls :: "wall list"
  currentPlayer :: int
  wallPreview :: "wall option"
  winner :: "int option"
  selectedPlayer :: "int option"
  isWallMode :: bool

text \<open>\<^verbatim>\<open>state.players[i]\<close>: \<^verbatim>\<open>undefined\<close> (\<open>None\<close>) unless \<open>i\<close> is 0 or 1.\<close>

definition playerAt :: "state \<Rightarrow> int \<Rightarrow> player option" where
  "playerAt s i =
     (if i = 0 then Some (fst (players s))
      else if i = 1 then Some (snd (players s))
      else None)"

text \<open>\<^verbatim>\<open>newPlayers[i] = p\<close> on the fresh two-element copy, for \<open>i\<close> 0 or 1 (every caller has
  read a field of \<^verbatim>\<open>state.players[i]\<close> before, so no other index arrives here).\<close>

definition setPlayer :: "player \<times> player \<Rightarrow> int \<Rightarrow> player \<Rightarrow> player \<times> player" where
  "setPlayer ps i p = (if i = 0 then (p, snd ps) else if i = 1 then (fst ps, p) else ps)"

text \<open>
  \<^verbatim>\<open>board[x][y]\<close> as a read: a \<^verbatim>\<open>TypeError\<close> when column \<open>x\<close> does not exist,
  \<^verbatim>\<open>undefined\<close> when the column has no element \<open>y\<close>.
\<close>

definition getCell :: "board \<Rightarrow> int \<Rightarrow> int \<Rightarrow> error + int option" where
  "getCell b x y =
     (if 0 \<le> x \<and> nat x < length b
      then (let col = b ! nat x
            in if 0 \<le> y \<and> nat y < length col then Inr (col ! nat y) else Inr None)
      else Inl TypeError)"

text \<open>
  \<^verbatim>\<open>col[y] = v\<close>: inside the column the element is replaced; past its end the array grows,
  with holes in between; a negative \<open>y\<close> sets a property that is no array element, which no
  indexed read of the program sees and which the next copy \<^verbatim>\<open>[...row]\<close> drops, so the
  indexed elements stay as they are.
\<close>

definition setIndex :: "int option list \<Rightarrow> int \<Rightarrow> int \<Rightarrow> int option list" where
  "setIndex col y v =
     (if y < 0 then col
      else if nat y < length col then col[nat y := Some v]
      else col @ replicate (nat y - length col) None @ [Some v])"

text \<open>\<^verbatim>\<open>board[x][y] = v\<close>: a \<^verbatim>\<open>TypeError\<close> when column \<open>x\<close> does not exist.\<close>

definition setCell :: "board \<Rightarrow> int \<Rightarrow> int \<Rightarrow> int \<Rightarrow> error + board" where
  "setCell b x y v =
     (if 0 \<le> x \<and> nat x < length b
      then Inr (b[nat x := setIndex (b ! nat x) y v])
      else Inl TypeError)"

subsection \<open>\<^verbatim>\<open>createInitialState\<close>\<close>

definition createInitialState :: state where
  "createInitialState =
     (let board0 = replicate 9 (replicate 9 (Some 0));
          board1 = board0[4 := (board0 ! 4)[8 := Some 1]];
          board2 = board1[4 := (board1 ! 4)[0 := Some 2]]
      in \<lparr> board = board2,
           players = (\<lparr> pid = 1, px = 4, py = 8, pwalls = 10 \<rparr>,
                      \<lparr> pid = 2, px = 4, py = 0, pwalls = 10 \<rparr>),
           walls = [],
           currentPlayer = 0,
           wallPreview = None,
           winner = None,
           selectedPlayer = None,
           isWallMode = False \<rparr>)"

subsection \<open>Geometry helpers\<close>

definition isWithinBounds :: "int \<Rightarrow> int \<Rightarrow> bool" where
  "isWithinBounds x y = (x \<ge> 0 \<and> x < 9 \<and> y \<ge> 0 \<and> y < 9)"

definition directions :: "(int \<times> int) list" where
  "directions = [(0, -1), (0, 1), (-1, 0), (1, 0)]"

definition getAdjacentSquares :: "int \<Rightarrow> int \<Rightarrow> (int \<times> int) list" where
  "getAdjacentSquares x y =
     filter (\<lambda>(newX, newY). isWithinBounds newX newY)
       (map (\<lambda>(dx, dy). (x + dx, y + dy)) directions)"

text \<open>The body of the loop of \<^verbatim>\<open>isWallBlocking\<close>: the two tests made on one wall.\<close>

definition wallBlocks :: "int \<Rightarrow> int \<Rightarrow> int \<Rightarrow> int \<Rightarrow> wall \<Rightarrow> bool" where
  "wallBlocks minX maxX minY maxY w =
     ((orientation w = H \<and>
       minY = wy w - 1 \<and> maxY = wy w \<and>
       minX \<ge> wx w - 1 \<and> maxX \<le> wx w)
      \<or>
      (orientation w = V \<and>
       minX = wx w - 1 \<and> maxX = wx w \<and>
       minY \<ge> wy w - 1 \<and> maxY \<le> wy w))"

fun wallLoop :: "int \<Rightarrow> int \<Rightarrow> int \<Rightarrow> int \<Rightarrow> wall list \<Rightarrow> bool" where
  "wallLoop minX maxX minY maxY [] = False"
| "wallLoop minX maxX minY maxY (w # ws) =
     (if wallBlocks minX maxX minY maxY w then True
      else wallLoop minX maxX minY maxY ws)"

definition isWallBlocking :: "state \<Rightarrow> int \<Rightarrow> int \<Rightarrow> int \<Rightarrow> int \<Rightarrow> bool" where
  "isWallBlocking s fromX fromY toX toY =
     (let minX = min fromX toX;
          maxX = max fromX toX;
          minY = min fromY toY;
          maxY = max fromY toY
      in wallLoop minX maxX minY maxY (walls s))"

subsection \<open>\<^verbatim>\<open>getLegalMoves\<close>\<close>

text \<open>
  \<^verbatim>\<open>getAdjacentSquares(x, y).filter(([sx, sy]) => state.board[sx][sy] === 0)\<close>, followed by
  the loop that keeps the squares no wall separates from \<open>(x, y)\<close>.
\<close>

fun emptySquares :: "board \<Rightarrow> (int \<times> int) list \<Rightarrow> error + (int \<times> int) list" where
  "emptySquares b [] = Inr []"
| "emptySquares b ((sx, sy) # rest) =
     (case getCell b sx sy of
        Inl e \<Rightarrow> Inl e
      | Inr c \<Rightarrow>
          (case emptySquares b rest of
             Inl e \<Rightarrow> Inl e
           | Inr keep \<Rightarrow> Inr (if c = Some 0 then (sx, sy) # keep else keep)))"

definition jumpsFrom :: "state \<Rightarrow> int \<Rightarrow> int \<Rightarrow> (int \<times> int) list \<Rightarrow> move list" where
  "jumpsFrom s x y jumpMoves =
     map (\<lambda>(sx, sy). \<lparr> mx = sx, my = sy, mtype = Jump \<rparr>)
       (filter (\<lambda>(sx, sy). \<not> isWallBlocking s x y sx sy) jumpMoves)"

text \<open>The loop over the squares adjacent to the player; \<open>moves\<close> is the array built so far.\<close>

fun movesLoop :: "state \<Rightarrow> player \<Rightarrow> player \<Rightarrow> (int \<times> int) list \<Rightarrow> move list
    \<Rightarrow> error + move list" where
  "movesLoop s pl opp [] moves = Inr moves"
| "movesLoop s pl opp ((x, y) # rest) moves =
     (if x = px opp \<and> y = py opp
      then (case emptySquares (board s) (getAdjacentSquares x y) of
              Inl e \<Rightarrow> Inl e
            | Inr jumpMoves \<Rightarrow> movesLoop s pl opp rest (moves @ jumpsFrom s x y jumpMoves))
      else (case getCell (board s) x y of
              Inl e \<Rightarrow> Inl e
            | Inr c \<Rightarrow>
                if c = Some 0 \<and> \<not> isWallBlocking s (px pl) (py pl) x y
                then movesLoop s pl opp rest (moves @ [\<lparr> mx = x, my = y, mtype = Normal \<rparr>])
                else movesLoop s pl opp rest moves))"

definition getLegalMoves :: "state \<Rightarrow> int \<Rightarrow> error + move list" where
  "getLegalMoves s playerIdx =
     (case playerAt s playerIdx of
        None \<Rightarrow> Inl TypeError
      | Some pl \<Rightarrow>
          (case playerAt s (1 - playerIdx) of
             None \<Rightarrow> Inl TypeError
           | Some opp \<Rightarrow> movesLoop s pl opp (getAdjacentSquares (px pl) (py pl)) []))"

subsection \<open>\<^verbatim>\<open>hasPathToGoal\<close>\<close>

text \<open>The squares of the 9x9 grid; used to bound the search.\<close>

definition cells :: "(int \<times> int) set" where
  "cells = {0..8} \<times> {0..8}"

lemma finite_cells: "finite cells"
  by (simp add: cells_def)

lemma getAdjacentSquares_cells: "set (getAdjacentSquares x y) \<subseteq> cells"
  by (auto simp: getAdjacentSquares_def cells_def isWithinBounds_def)

text \<open>
  The \<^verbatim>\<open>while (queue.length > 0)\<close> loop. \<open>visited\<close> is the \<^verbatim>\<open>Set\<close> of keys
  \<^verbatim>\<open>`${x},${y}`\<close>, one key per pair of integers, kept as the list of the pairs added so
  far; the queue is the array, \<^verbatim>\<open>shift\<close> taking its head and \<^verbatim>\<open>push\<close> appending.
\<close>

function bfs :: "state \<Rightarrow> int \<Rightarrow> (int \<times> int) list \<Rightarrow> (int \<times> int) list \<Rightarrow> bool" where
  "bfs s goalY visited [] = False"
| "bfs s goalY visited ((x, y) # queue) =
     (if (x, y) \<in> set visited then bfs s goalY visited queue
      else if y = goalY then True
      else bfs s goalY ((x, y) # visited)
             (queue @ filter (\<lambda>(ax, ay). (ax, ay) \<notin> set ((x, y) # visited) \<and>
                                          \<not> isWallBlocking s x y ax ay)
                        (getAdjacentSquares x y)))"
  by pat_completeness auto
termination
proof (relation "(\<lambda>(s, g, vis, q). card ((cells \<union> set q) - set vis)) <*mlex*>
                 measure (\<lambda>(s, g, vis, q). length q)")
  show "wf ((\<lambda>(s, g, vis, q). card ((cells \<union> set q) - set vis)) <*mlex*>
                 measure (\<lambda>(s, g, vis, q). length q))"
    by (simp add: wf_mlex)
next
  fix s :: state and goalY :: int and visited queue :: "(int \<times> int) list" and x y :: int
  assume "(x, y) \<in> set visited"
  have "card ((cells \<union> set queue) - set visited)
        \<le> card ((cells \<union> set ((x, y) # queue)) - set visited)"
    by (rule card_mono) (auto simp: finite_cells)
  then show "((s, goalY, visited, queue), (s, goalY, visited, (x, y) # queue))
        \<in> (\<lambda>(s, g, vis, q). card ((cells \<union> set q) - set vis)) <*mlex*>
                 measure (\<lambda>(s, g, vis, q). length q)"
    by (auto intro!: mlex_leq)
next
  fix s :: state and goalY :: int and visited queue :: "(int \<times> int) list" and x y :: int
  let ?new = "filter (\<lambda>(ax, ay). (ax, ay) \<notin> set ((x, y) # visited) \<and>
                                          \<not> isWallBlocking s x y ax ay)
                        (getAdjacentSquares x y)"
  assume nv: "(x, y) \<notin> set visited"
  have "(cells \<union> set (queue @ ?new)) - set ((x, y) # visited)
        \<subset> (cells \<union> set ((x, y) # queue)) - set visited"
    using nv getAdjacentSquares_cells [of x y] by auto
  then have "card ((cells \<union> set (queue @ ?new)) - set ((x, y) # visited))
        < card ((cells \<union> set ((x, y) # queue)) - set visited)"
    by (intro psubset_card_mono) (auto simp: finite_cells)
  then show "((s, goalY, (x, y) # visited, queue @ ?new), (s, goalY, visited, (x, y) # queue))
        \<in> (\<lambda>(s, g, vis, q). card ((cells \<union> set q) - set vis)) <*mlex*>
                 measure (\<lambda>(s, g, vis, q). length q)"
    by (auto intro!: mlex_less)
qed

declare bfs.simps [simp del]

definition hasPathToGoal :: "state \<Rightarrow> int \<Rightarrow> error + bool" where
  "hasPathToGoal s playerIdx =
     (case playerAt s playerIdx of
        None \<Rightarrow> Inl TypeError
      | Some pl \<Rightarrow>
          (let goalY = (if playerIdx = 0 then 0 else 8)
           in Inr (bfs s goalY [] [(px pl, py pl)])))"

subsection \<open>\<^verbatim>\<open>isLegalWall\<close>\<close>

text \<open>The body of the loop over the existing walls: true when it returns \<^verbatim>\<open>false\<close>.\<close>

definition wallClash :: "wall \<Rightarrow> wall \<Rightarrow> bool" where
  "wallClash existingWall w =
     (if wx existingWall = wx w \<and> wy existingWall = wy w then True
      else if orientation w = H
      then orientation existingWall = H \<and>
           wy existingWall = wy w \<and> \<bar>wx existingWall - wx w\<bar> \<le> 1
      else orientation existingWall = V \<and>
           wx existingWall = wx w \<and> \<bar>wy existingWall - wy w\<bar> \<le> 1)"

fun clashLoop :: "wall list \<Rightarrow> wall \<Rightarrow> bool" where
  "clashLoop [] w = False"
| "clashLoop (existingWall # rest) w =
     (if wallClash existingWall w then True else clashLoop rest w)"

definition isLegalWall :: "state \<Rightarrow> wall \<Rightarrow> error + bool" where
  "isLegalWall s w =
     (if wx w < 1 \<or> wx w > 8 \<or> wy w < 1 \<or> wy w > 8 then Inr False
      else if clashLoop (walls s) w then Inr False
      else (let tempState = s\<lparr> walls := walls s @ [w] \<rparr>
            in case hasPathToGoal tempState 0 of
                 Inl e \<Rightarrow> Inl e
               | Inr r0 \<Rightarrow> if r0 then hasPathToGoal tempState 1 else Inr False))"

subsection \<open>\<^verbatim>\<open>applyMove\<close> and \<^verbatim>\<open>applyWall\<close>\<close>

definition applyMove :: "state \<Rightarrow> int \<Rightarrow> int \<Rightarrow> int \<Rightarrow> error + state" where
  "applyMove s playerIdx x y =
     (case playerAt s playerIdx of
        None \<Rightarrow> Inl TypeError
      | Some pl \<Rightarrow>
          (case setCell (board s) (px pl) (py pl) 0 of
             Inl e \<Rightarrow> Inl e
           | Inr board1 \<Rightarrow>
               (case setCell board1 x y (pid pl) of
                  Inl e \<Rightarrow> Inl e
                | Inr newBoard \<Rightarrow>
                    (let newPlayers = setPlayer (players s) playerIdx (pl\<lparr> px := x, py := y \<rparr>);
                         winner0 = None;
                         winner1 = (if playerIdx = 0 \<and> y = 0 then Some 0 else winner0);
                         winner2 = (if playerIdx = 1 \<and> y = 8 then Some 1 else winner1)
                     in Inr (s\<lparr> board := newBoard,
                                players := newPlayers,
                                currentPlayer :=
                                  (if winner2 = None then 1 - playerIdx else currentPlayer s),
                                winner := winner2,
                                selectedPlayer := None \<rparr>)))))"

definition applyWall :: "state \<Rightarrow> wall \<Rightarrow> error + state" where
  "applyWall s w =
     (case playerAt s (currentPlayer s) of
        None \<Rightarrow> Inl TypeError
      | Some pl \<Rightarrow>
          (let newPlayers =
                 setPlayer (players s) (currentPlayer s) (pl\<lparr> pwalls := pwalls pl - 1 \<rparr>)
           in Inr (s\<lparr> walls := walls s @ [w],
                      players := newPlayers,
                      currentPlayer := 1 - currentPlayer s,
                      wallPreview := None \<rparr>)))"

subsection \<open>The click handlers of the driver\<close>

text \<open>
  The handlers update the one shared state object in place (\<^verbatim>\<open>Object.assign(state, newState)\<close>)
  and redraw; here they return the state the object holds afterwards. A number is truthy
  unless it is 0, \<^verbatim>\<open>null\<close> is falsy, an object is truthy.
\<close>

definition truthyWinner :: "int option \<Rightarrow> bool" where
  "truthyWinner w = (case w of None \<Rightarrow> False | Some n \<Rightarrow> n \<noteq> 0)"

definition handleSquareClick :: "state \<Rightarrow> int \<Rightarrow> int \<Rightarrow> error + state" where
  "handleSquareClick s x y =
     (if truthyWinner (winner s) \<or> isWallMode s \<or> wallPreview s \<noteq> None then Inr s
      else case playerAt s (currentPlayer s) of
        None \<Rightarrow> Inl TypeError
      | Some cur \<Rightarrow>
          if x = px cur \<and> y = py cur then Inr (s\<lparr> selectedPlayer := Some (currentPlayer s) \<rparr>)
          else if selectedPlayer s = Some (currentPlayer s)
          then (case getLegalMoves s (currentPlayer s) of
                  Inl e \<Rightarrow> Inl e
                | Inr moves \<Rightarrow>
                    (case find (\<lambda>m. mx m = x \<and> my m = y) moves of
                       Some m \<Rightarrow> applyMove s (currentPlayer s) x y
                     | None \<Rightarrow>
                         (case playerAt s (1 - currentPlayer s) of
                            None \<Rightarrow> Inl TypeError
                          | Some opponent \<Rightarrow>
                              if x \<noteq> px opponent \<or> y \<noteq> py opponent
                              then Inr (s\<lparr> selectedPlayer := None \<rparr>)
                              else Inr s)))
          else Inr s)"

definition handleWallClick :: "state \<Rightarrow> int \<Rightarrow> int \<Rightarrow> error + state" where
  "handleWallClick s x y =
     (if truthyWinner (winner s) \<or> \<not> isWallMode s then Inr s
      else if find (\<lambda>w. wx w = x \<and> wy w = y) (walls s) \<noteq> None then Inr s
      else case playerAt s (currentPlayer s) of
        None \<Rightarrow> Inl TypeError
      | Some cur \<Rightarrow>
          if pwalls cur \<le> 0 then Inr s
          else (case wallPreview s of
                  Some pv \<Rightarrow>
                    if wx pv = x \<and> wy pv = y
                    then Inr (s\<lparr> wallPreview :=
                                 Some (pv\<lparr> orientation := (if orientation pv = H then V else H) \<rparr>) \<rparr>)
                    else Inr (s\<lparr> wallPreview := Some \<lparr> wx = x, wy = y, orientation = H \<rparr> \<rparr>)
                | None \<Rightarrow> Inr (s\<lparr> wallPreview := Some \<lparr> wx = x, wy = y, orientation = H \<rparr> \<rparr>)))"

definition handleWallRightClick :: "state \<Rightarrow> int \<Rightarrow> int \<Rightarrow> error + state" where
  "handleWallRightClick s x y =
     (if truthyWinner (winner s) \<or> \<not> isWallMode s then Inr s
      else case wallPreview s of
        None \<Rightarrow> Inr s
      | Some pv \<Rightarrow>
          if find (\<lambda>w. wx w = x \<and> wy w = y) (walls s) \<noteq> None then Inr s
          else (case playerAt s (currentPlayer s) of
                  None \<Rightarrow> Inl TypeError
                | Some cur \<Rightarrow>
                    if pwalls cur \<le> 0 then Inr s
                    else if wx pv = x \<and> wy pv = y
                    then (case isLegalWall s pv of
                            Inl e \<Rightarrow> Inl e
                          | Inr legal \<Rightarrow>
                              if legal
                              then (case applyWall s pv of
                                      Inl e \<Rightarrow> Inl e
                                    | Inr newState \<Rightarrow> Inr (newState\<lparr> isWallMode := False \<rparr>))
                              else Inr s)
                    else Inr s))"

text \<open>\<^verbatim>\<open>window.toggleWallMode\<close>.\<close>

definition toggleWallMode :: "state \<Rightarrow> state" where
  "toggleWallMode s = s\<lparr> isWallMode := \<not> isWallMode s, selectedPlayer := None \<rparr>"

text \<open>A sequence of clicks on squares, each handled on the state the previous one left;
  an exception ends the sequence.\<close>

fun squareClicks :: "state \<Rightarrow> (int \<times> int) list \<Rightarrow> error + state" where
  "squareClicks s [] = Inr s"
| "squareClicks s ((x, y) # rest) =
     (case handleSquareClick s x y of
        Inl e \<Rightarrow> Inl e
      | Inr s' \<Rightarrow> squareClicks s' rest)"

section \<open>Specification-level notions\<close>

subsection \<open>Paths to the goal row\<close>

text \<open>
  One step of a path: to an orthogonally adjacent square of the grid, with no wall of the
  state blocking the step. Pawns are no obstacle.
\<close>

definition stepOpen :: "state \<Rightarrow> int \<times> int \<Rightarrow> int \<times> int \<Rightarrow> bool" where
  "stepOpen s a b =
     (\<bar>fst a - fst b\<bar> + \<bar>snd a - snd b\<bar> = 1 \<and>
      isWithinBounds (fst b) (snd b) \<and>
      \<not> isWallBlocking s (fst a) (snd a) (fst b) (snd b))"

inductive reaches :: "state \<Rightarrow> int \<times> int \<Rightarrow> int \<times> int \<Rightarrow> bool" for s :: state where
  here: "reaches s a a"
| onward: "reaches s a b \<Longrightarrow> stepOpen s b c \<Longrightarrow> reaches s a c"

text \<open>Row 0 for player 0, row 8 for player 1.\<close>

definition goalRow :: "int \<Rightarrow> int" where
  "goalRow playerIdx = (if playerIdx = 0 then 0 else 8)"

definition pathToGoal :: "state \<Rightarrow> int \<Rightarrow> bool" where
  "pathToGoal s playerIdx =
     (\<exists>pl c. playerAt s playerIdx = Some pl \<and> reaches s (px pl, py pl) c \<and>
             snd c = goalRow playerIdx)"

subsection \<open>Board occupancy\<close>

text \<open>The full 9x9 board whose square \<open>(x, y)\<close> holds \<open>f x y\<close>.\<close>

definition grid :: "(int \<Rightarrow> int \<Rightarrow> int) \<Rightarrow> board" where
  "grid f = map (\<lambda>x. map (\<lambda>y. Some (f x y)) [0..8]) [0..8]"

text \<open>What a square holds when the board shows the two pawns and nothing else: the
  identifier of the pawn that stands on it, 0 on every other square.\<close>

definition occupant :: "player \<times> player \<Rightarrow> int \<Rightarrow> int \<Rightarrow> int" where
  "occupant ps x y =
     (if x = px (fst ps) \<and> y = py (fst ps) then pid (fst ps)
      else if x = px (snd ps) \<and> y = py (snd ps) then pid (snd ps)
      else 0)"

definition occupancy :: "player \<times> player \<Rightarrow> board" where
  "occupancy ps = grid (occupant ps)"

text \<open>
  Board occupancy equals exactly the two pawns' positions: the pawns stand on two different
  squares of the grid, their identifiers are not the empty marker 0, and the board is the
  occupancy of the two pawns.
\<close>

definition boardMatches :: "state \<Rightarrow> bool" where
  "boardMatches s =
     (isWithinBounds (px (fst (players s))) (py (fst (players s))) \<and>
      isWithinBounds (px (snd (players s))) (py (snd (players s))) \<and>
      (px (fst (players s)), py (fst (players s))) \<noteq> (px (snd (players s)), py (snd (players s))) \<and>
      pid (fst (players s)) \<noteq> 0 \<and> pid (snd (players s)) \<noteq> 0 \<and>
      board s = occupancy (players s))"

text \<open>Column \<open>x\<close> of the board exists, so that \<^verbatim>\<open>board[x][y]\<close> can be read and written.\<close>

definition hasColumn :: "board \<Rightarrow> int \<Rightarrow> bool" where
  "hasColumn b x = (0 \<le> x \<and> nat x < length b)"

text \<open>A state with the pawns on the given squares, the matching board and the given walls;
  player 0 is to move.\<close>

definition position :: "int \<times> int \<Rightarrow> int \<times> int \<Rightarrow> wall list \<Rightarrow> state" where
  "position a b ws =
     (let ps = (\<lparr> pid = 1, px = fst a, py = snd a, pwalls = 10 \<rparr>,
                \<lparr> pid = 2, px = fst b, py = snd b, pwalls = 10 \<rparr>)
      in createInitialState\<lparr> board := occupancy ps, players := ps, walls := ws \<rparr>)"

subsection \<open>One round of the loop of \<^verbatim>\<open>getLegalMoves\<close>\<close>

text \<open>
  The moves the loop pushes for one square \<open>(x, y)\<close> adjacent to the player, on a board
  whose columns exist: the jumps when the opponent stands there, the normal move otherwise.
\<close>

definition pushes :: "state \<Rightarrow> player \<Rightarrow> player \<Rightarrow> int \<times> int \<Rightarrow> move list" where
  "pushes s pl opp sq =
     (case sq of (x, y) \<Rightarrow>
        if x = px opp \<and> y = py opp
        then jumpsFrom s x y
               (filter (\<lambda>(sx, sy). getCell (board s) sx sy = Inr (Some 0))
                  (getAdjacentSquares x y))
        else if getCell (board s) x y = Inr (Some 0) \<and>
                \<not> isWallBlocking s (px pl) (py pl) x y
        then [\<lparr> mx = x, my = y, mtype = Normal \<rparr>]
        else [])"

subsection \<open>Play through validated transitions\<close>

datatype action = Move int int | Place wall

text \<open>
  A transition whose input the legality query approved first: a move of the player to
  move to a square that \<^verbatim>\<open>getLegalMoves\<close> returns, or a wall that \<^verbatim>\<open>isLegalWall\<close> accepts.
\<close>

fun validated :: "state \<Rightarrow> action \<Rightarrow> state option" where
  "validated s (Move x y) =
     (case getLegalMoves s (currentPlayer s) of
        Inl e \<Rightarrow> None
      | Inr moves \<Rightarrow>
          (case find (\<lambda>m. mx m = x \<and> my m = y) moves of
             None \<Rightarrow> None
           | Some m \<Rightarrow>
               (case applyMove s (currentPlayer s) x y of
                  Inl e \<Rightarrow> None
                | Inr s' \<Rightarrow> Some s')))"
| "validated s (Place w) =
     (case isLegalWall s w of
        Inl e \<Rightarrow> None
      | Inr legal \<Rightarrow>
          if legal
          then (case applyWall s w of Inl e \<Rightarrow> None | Inr s' \<Rightarrow> Some s')
          else None)"

inductive reachable :: "state \<Rightarrow> bool" where
  initial: "reachable createInitialState"
| transition: "reachable s \<Longrightarrow> validated s a = Some s' \<Longrightarrow> reachable s'"

fun play :: "state \<Rightarrow> action list \<Rightarrow> state option" where
  "play s [] = Some s"
| "play s (a # rest) =
     (case validated s a of None \<Rightarrow> None | Some s' \<Rightarrow> play s' rest)"

text \<open>
  The same, with the guard the driver adds before it places a wall
  (\<^verbatim>\<open>if (currentPlayer.walls <= 0) return\<close> in \<^verbatim>\<open>handleWallRightClick\<close>): the player to
  move has a wall left.
\<close>

fun guarded :: "state \<Rightarrow> action \<Rightarrow> state option" where
  "guarded s (Move x y) = validated s (Move x y)"
| "guarded s (Place w) =
     (case playerAt s (currentPlayer s) of
        None \<Rightarrow> None
      | Some cur \<Rightarrow> if pwalls cur \<le> 0 then None else validated s (Place w))"

inductive reachableGuarded :: "state \<Rightarrow> bool" where
  initialG: "reachableGuarded createInitialState"
| transitionG: "reachableGuarded s \<Longrightarrow> guarded s a = Some s' \<Longrightarrow> reachableGuarded s'"

subsection \<open>Two games\<close>

text \<open>
  Player 0 places eleven walls, each accepted by \<^verbatim>\<open>isLegalWall\<close>, while player 1 steps
  between (4,0) and (3,0).
\<close>

definition elevenWalls :: "action list" where
  "elevenWalls =
     [Place \<lparr> wx = 1, wy = 1, orientation = H \<rparr>, Move 3 0,
      Place \<lparr> wx = 3, wy = 1, orientation = H \<rparr>, Move 4 0,
      Place \<lparr> wx = 5, wy = 1, orientation = H \<rparr>, Move 3 0,
      Place \<lparr> wx = 7, wy = 1, orientation = H \<rparr>, Move 4 0,
      Place \<lparr> wx = 1, wy = 2, orientation = H \<rparr>, Move 3 0,
      Place \<lparr> wx = 3, wy = 2, orientation = H \<rparr>, Move 4 0,
      Place \<lparr> wx = 5, wy = 2, orientation = H \<rparr>, Move 3 0,
      Place \<lparr> wx = 7, wy = 2, orientation = H \<rparr>, Move 4 0,
      Place \<lparr> wx = 1, wy = 3, orientation = H \<rparr>, Move 3 0,
      Place \<lparr> wx = 3, wy = 3, orientation = H \<rparr>, Move 4 0,
      Place \<lparr> wx = 5, wy = 3, orientation = H \<rparr>]"

text \<open>The state after these transitions: player 0 has \<open>-1\<close> walls.\<close>

definition overdrawn :: state where
  "overdrawn =
     createInitialState
       \<lparr> players := (\<lparr> pid = 1, px = 4, py = 8, pwalls = - 1 \<rparr>,
                     \<lparr> pid = 2, px = 4, py = 0, pwalls = 10 \<rparr>),
         walls := [\<lparr> wx = 1, wy = 1, orientation = H \<rparr>, \<lparr> wx = 3, wy = 1, orientation = H \<rparr>,
                   \<lparr> wx = 5, wy = 1, orientation = H \<rparr>, \<lparr> wx = 7, wy = 1, orientation = H \<rparr>,
                   \<lparr> wx = 1, wy = 2, orientation = H \<rparr>, \<lparr> wx = 3, wy = 2, orientation = H \<rparr>,
                   \<lparr> wx = 5, wy = 2, orientation = H \<rparr>, \<lparr> wx = 7, wy = 2, orientation = H \<rparr>,
                   \<lparr> wx = 1, wy = 3, orientation = H \<rparr>, \<lparr> wx = 3, wy = 3, orientation = H \<rparr>,
                   \<lparr> wx = 5, wy = 3, orientation = H \<rparr>],
         currentPlayer := 1 \<rparr>"

text \<open>
  The clicks of a game that player 0 wins: each move is a click on the own pawn and a click
  on the destination. Player 0 walks up column 4 from (4,8) to (4,0); player 1 steps aside
  to (3,0) and walks down column 3 to (3,6).
\<close>

definition winningClicks :: "(int \<times> int) list" where
  "winningClicks =
     [(4, 8), (4, 7),  (4, 0), (3, 0),
      (4, 7), (4, 6),  (3, 0), (3, 1),
      (4, 6), (4, 5),  (3, 1), (3, 2),
      (4, 5), (4, 4),  (3, 2), (3, 3),
      (4, 4), (4, 3),  (3, 3), (3, 4),
      (4, 3), (4, 2),  (3, 4), (3, 5),
      (4, 2), (4, 1),  (3, 5), (3, 6),
      (4, 1), (4, 0)]"

text \<open>The state this game ends in: player 0 on (4,0) has won, and it is still player 0's
  turn.\<close>

definition wonGame :: state where
  "wonGame = (position (4, 0) (3, 6) [])\<lparr> winner := Some 0 \<rparr>"

section \<open>The search finds a path exactly when there is one\<close>

lemma unit_step:
  "(\<bar>x - u\<bar> + \<bar>y - v\<bar> = (1::int)) =
     ((u = x \<and> v = y - 1) \<or> (u = x \<and> v = y + 1) \<or>
      (u = x - 1 \<and> v = y) \<or> (u = x + 1 \<and> v = y))"
  by arith

lemma mem_getAdjacentSquares:
  "(b \<in> set (getAdjacentSquares x y)) =
     (\<bar>x - fst b\<bar> + \<bar>y - snd b\<bar> = 1 \<and> isWithinBounds (fst b) (snd b))"
proof (cases b)
  case (Pair u v)
  show ?thesis
    unfolding Pair fst_conv snd_conv unit_step
    by (auto simp: getAdjacentSquares_def directions_def)
qed

lemma stepOpen_iff:
  "stepOpen s (x, y) b =
     (b \<in> set (getAdjacentSquares x y) \<and> \<not> isWallBlocking s x y (fst b) (snd b))"
  by (auto simp: stepOpen_def mem_getAdjacentSquares)

lemma reaches_first:
  assumes "reaches s b c" and "stepOpen s a b"
  shows "reaches s a c"
  using assms
proof (induction rule: reaches.induct)
  case (here b)
  then show ?case by (blast intro: reaches.intros)
next
  case (onward b c d)
  then show ?case by (blast intro: reaches.intros)
qed

text \<open>Soundness: when the loop returns true, some square of the queue has a path to the
  goal row.\<close>

lemma bfs_sound:
  "bfs s g vis q \<Longrightarrow> \<exists>a \<in> set q. \<exists>c. reaches s a c \<and> snd c = g"
proof (induction s g vis q rule: bfs.induct)
  case (1 s g vis)
  then show ?case by (simp add: bfs.simps)
next
  case (2 s g vis x y queue)
  let ?new = "filter (\<lambda>(ax, ay). (ax, ay) \<notin> set ((x, y) # vis) \<and>
                                 \<not> isWallBlocking s x y ax ay)
                (getAdjacentSquares x y)"
  show ?case
  proof (cases "(x, y) \<in> set vis")
    case True
    with "2.prems" have "bfs s g vis queue" by (simp add: bfs.simps)
    from "2.IH"(1) [OF True this] show ?thesis by auto
  next
    case nv: False
    show ?thesis
    proof (cases "y = g")
      case True
      have "reaches s (x, y) (x, y)" by (rule reaches.here)
      moreover have "(x, y) \<in> set ((x, y) # queue)" by simp
      ultimately show ?thesis using True by fastforce
    next
      case False
      with nv "2.prems" have "bfs s g ((x, y) # vis) (queue @ ?new)"
        by (simp add: bfs.simps)
      from "2.IH"(2) [OF nv False this]
      obtain a c where a: "a \<in> set (queue @ ?new)" and r: "reaches s a c" and g: "snd c = g"
        by blast
      show ?thesis
      proof (cases "a \<in> set queue")
        case True
        then have "a \<in> set ((x, y) # queue)" by simp
        with r g show ?thesis by blast
      next
        case False
        with a have "stepOpen s (x, y) a"
          by (auto simp: stepOpen_iff)
        then have "reaches s (x, y) c" using r by (blast intro: reaches_first)
        moreover have "(x, y) \<in> set ((x, y) # queue)" by simp
        ultimately show ?thesis using g by blast
      qed
    qed
  qed
qed

lemma closed_reaches:
  assumes "reaches s a c" and "a \<in> W" and "\<forall>v\<in>W. \<forall>b. stepOpen s v b \<longrightarrow> b \<in> W"
  shows "c \<in> W"
  using assms by (induction rule: reaches.induct) auto

text \<open>
  Completeness. The invariant of the loop: no visited square lies in the goal row, and every
  open step from a visited square leads to a visited or a queued square. When the loop
  returns false, nothing visited or queued has a path to the goal row.
\<close>

lemma bfs_complete:
  "\<not> bfs s g vis q \<Longrightarrow>
   \<forall>v\<in>set vis. snd v \<noteq> g \<and> (\<forall>b. stepOpen s v b \<longrightarrow> b \<in> set vis \<union> set q) \<Longrightarrow>
   a \<in> set vis \<union> set q \<Longrightarrow> reaches s a c \<Longrightarrow> snd c \<noteq> g"
proof (induction s g vis q arbitrary: a rule: bfs.induct)
  case (1 s g vis)
  then have "c \<in> set vis"
    using closed_reaches [of s a c "set vis"] by auto
  with 1 show ?case by auto
next
  case (2 s g vis x y queue)
  let ?new = "filter (\<lambda>(ax, ay). (ax, ay) \<notin> set ((x, y) # vis) \<and>
                                 \<not> isWallBlocking s x y ax ay)
                (getAdjacentSquares x y)"
  show ?case
  proof (cases "(x, y) \<in> set vis")
    case True
    with "2.prems" have nb: "\<not> bfs s g vis queue" by (simp add: bfs.simps)
    from True "2.prems"(2)
    have inv: "\<forall>v\<in>set vis. snd v \<noteq> g \<and>
                 (\<forall>b. stepOpen s v b \<longrightarrow> b \<in> set vis \<union> set queue)"
      by auto
    from True "2.prems"(3) have "a \<in> set vis \<union> set queue" by auto
    from "2.IH"(1) [OF True nb inv this "2.prems"(4)] show ?thesis .
  next
    case nv: False
    with "2.prems"(1) have ng: "y \<noteq> g" by (auto simp: bfs.simps split: if_splits)
    with nv "2.prems"(1) have nb: "\<not> bfs s g ((x, y) # vis) (queue @ ?new)"
      by (simp add: bfs.simps)
    have inv: "\<forall>v\<in>set ((x, y) # vis). snd v \<noteq> g \<and>
        (\<forall>b. stepOpen s v b \<longrightarrow> b \<in> set ((x, y) # vis) \<union> set (queue @ ?new))"
    proof
      fix v assume v: "v \<in> set ((x, y) # vis)"
      show "snd v \<noteq> g \<and>
            (\<forall>b. stepOpen s v b \<longrightarrow> b \<in> set ((x, y) # vis) \<union> set (queue @ ?new))"
      proof (cases "v = (x, y)")
        case True
        then show ?thesis using ng by (auto simp: stepOpen_iff)
      next
        case False
        with v have "v \<in> set vis" by simp
        with "2.prems"(2) show ?thesis by auto
      qed
    qed
    from "2.prems"(3) have "a \<in> set ((x, y) # vis) \<union> set (queue @ ?new)" by auto
    from "2.IH"(2) [OF nv ng nb inv this "2.prems"(4)] show ?thesis .
  qed
qed

lemma bfs_iff:
  "bfs s g [] [a] = (\<exists>c. reaches s a c \<and> snd c = g)"
proof
  assume "bfs s g [] [a]"
  from bfs_sound [OF this] show "\<exists>c. reaches s a c \<and> snd c = g" by simp
next
  assume "\<exists>c. reaches s a c \<and> snd c = g"
  then obtain c where r: "reaches s a c" and g: "snd c = g" by blast
  show "bfs s g [] [a]"
  proof (rule ccontr)
    assume "\<not> bfs s g [] [a]"
    from bfs_complete [OF this _ _ r] g show False by simp
  qed
qed

lemma hasPathToGoal_iff:
  "playerIdx = 0 \<or> playerIdx = 1 \<Longrightarrow>
   hasPathToGoal s playerIdx = Inr (pathToGoal s playerIdx)"
  by (auto simp: hasPathToGoal_def pathToGoal_def goalRow_def playerAt_def bfs_iff)

section \<open>Wall legality\<close>

lemma position_fields:
  "walls (position a b ws) = ws"
  "players (position a b ws) =
     (\<lparr> pid = 1, px = fst a, py = snd a, pwalls = 10 \<rparr>,
      \<lparr> pid = 2, px = fst b, py = snd b, pwalls = 10 \<rparr>)"
  "board (position a b ws) = occupancy (players (position a b ws))"
  "currentPlayer (position a b ws) = 0"
  "winner (position a b ws) = None"
  by (simp_all add: position_def Let_def createInitialState_def)

text \<open>\<^verbatim>\<open>isLegalWall\<close> never raises: it returns the conjunction of its three tests.\<close>

lemma isLegalWall_cases:
  "isLegalWall s w =
     Inr (\<not> (wx w < 1 \<or> wx w > 8 \<or> wy w < 1 \<or> wy w > 8) \<and> \<not> clashLoop (walls s) w \<and>
          pathToGoal (s\<lparr> walls := walls s @ [w] \<rparr>) 0 \<and>
          pathToGoal (s\<lparr> walls := walls s @ [w] \<rparr>) 1)"
  by (simp add: isLegalWall_def hasPathToGoal_iff Let_def)

lemma clashLoop_iff: "clashLoop ws w = (\<exists>e \<in> set ws. wallClash e w)"
  by (induction ws) auto

text \<open>
  Claim C1. \<^verbatim>\<open>isLegalWall(state, wall)\<close> returns true only if, with the candidate wall added
  to the walls of the state, each player has a path from the square of their pawn to their
  goal row (row 0 for player 0, row 8 for player 1) over steps between adjacent squares of
  the grid that no wall, existing or candidate, blocks, the pawns being no obstacle; and if
  either player has no such path, it returns false. The search of \<^verbatim>\<open>hasPathToGoal\<close> is run on
  the state with the wall added and decides exactly the existence of such a path
  (\<open>hasPathToGoal_iff\<close>).
\<close>

theorem isLegalWall_needs_both_paths:
  "(isLegalWall s w = Inr True \<longrightarrow>
      pathToGoal (s\<lparr> walls := walls s @ [w] \<rparr>) 0 \<and>
      pathToGoal (s\<lparr> walls := walls s @ [w] \<rparr>) 1) \<and>
   (\<not> (pathToGoal (s\<lparr> walls := walls s @ [w] \<rparr>) 0 \<and>
       pathToGoal (s\<lparr> walls := walls s @ [w] \<rparr>) 1) \<longrightarrow>
      isLegalWall s w = Inr False)"
  by (simp add: isLegalWall_cases)

text \<open>
  On the initial board a horizontal wall at (4,4) is legal and leaves both paths. With
  vertical walls at (4,8) and (6,8) around player 0 at (4,8), the horizontal wall at (5,8)
  would close the box against the board edge: player 0 has no path, and the wall is refused.
\<close>

theorem isLegalWall_needs_both_paths_witness:
  "isLegalWall createInitialState \<lparr> wx = 4, wy = 4, orientation = H \<rparr> = Inr True \<and>
   pathToGoal (createInitialState\<lparr> walls := walls createInitialState @
                 [\<lparr> wx = 4, wy = 4, orientation = H \<rparr>] \<rparr>) 0 \<and>
   pathToGoal (createInitialState\<lparr> walls := walls createInitialState @
                 [\<lparr> wx = 4, wy = 4, orientation = H \<rparr>] \<rparr>) 1 \<and>
   \<not> pathToGoal
       ((position (4, 8) (4, 0)
           [\<lparr> wx = 4, wy = 8, orientation = V \<rparr>, \<lparr> wx = 6, wy = 8, orientation = V \<rparr>])
          \<lparr> walls := walls (position (4, 8) (4, 0)
                       [\<lparr> wx = 4, wy = 8, orientation = V \<rparr>, \<lparr> wx = 6, wy = 8, orientation = V \<rparr>])
                     @ [\<lparr> wx = 5, wy = 8, orientation = H \<rparr>] \<rparr>) 0 \<and>
   isLegalWall (position (4, 8) (4, 0)
                  [\<lparr> wx = 4, wy = 8, orientation = V \<rparr>, \<lparr> wx = 6, wy = 8, orientation = V \<rparr>])
       \<lparr> wx = 5, wy = 8, orientation = H \<rparr> = Inr False"
proof -
  let ?w = "\<lparr> wx = 4, wy = 4, orientation = H \<rparr>"
  let ?box = "position (4, 8) (4, 0)
                [\<lparr> wx = 4, wy = 8, orientation = V \<rparr>, \<lparr> wx = 6, wy = 8, orientation = V \<rparr>]"
  let ?lid = "\<lparr> wx = 5, wy = 8, orientation = H \<rparr>"
  have legal: "isLegalWall createInitialState ?w = Inr True"
    by code_simp
  have "hasPathToGoal (?box\<lparr> walls := walls ?box @ [?lid] \<rparr>) 0 = Inr False"
    by code_simp
  then have shut: "\<not> pathToGoal (?box\<lparr> walls := walls ?box @ [?lid] \<rparr>) 0"
    by (simp add: hasPathToGoal_iff)
  from legal shut isLegalWall_needs_both_paths [of createInitialState ?w]
    isLegalWall_needs_both_paths [of ?box ?lid]
  show ?thesis by blast
qed

text \<open>
  Claim C4. \<^verbatim>\<open>isLegalWall\<close> returns false if some existing wall has the same intersection as
  the candidate (whatever the orientations), or has the candidate's orientation, the same
  cross-axis coordinate (y for horizontal walls, x for vertical ones) and an along-axis
  coordinate that differs by at most 1. In particular, in a state with a horizontal wall at
  (3,3), the horizontal wall at (4,3) is rejected.
\<close>

theorem isLegalWall_rejects_clash:
  "((\<exists>e \<in> set (walls s).
        (wx e = wx w \<and> wy e = wy w) \<or>
        (orientation e = orientation w \<and>
         (if orientation w = H
          then wy e = wy w \<and> \<bar>wx e - wx w\<bar> \<le> 1
          else wx e = wx w \<and> \<bar>wy e - wy w\<bar> \<le> 1)))
      \<longrightarrow> isLegalWall s w = Inr False) \<and>
   (\<lparr> wx = 3, wy = 3, orientation = H \<rparr> \<in> set (walls s)
      \<longrightarrow> isLegalWall s \<lparr> wx = 4, wy = 3, orientation = H \<rparr> = Inr False)"
proof (intro conjI impI)
  assume "\<exists>e \<in> set (walls s).
        (wx e = wx w \<and> wy e = wy w) \<or>
        (orientation e = orientation w \<and>
         (if orientation w = H
          then wy e = wy w \<and> \<bar>wx e - wx w\<bar> \<le> 1
          else wx e = wx w \<and> \<bar>wy e - wy w\<bar> \<le> 1))"
  then obtain e where e: "e \<in> set (walls s)"
    and c: "(wx e = wx w \<and> wy e = wy w) \<or>
        (orientation e = orientation w \<and>
         (if orientation w = H
          then wy e = wy w \<and> \<bar>wx e - wx w\<bar> \<le> 1
          else wx e = wx w \<and> \<bar>wy e - wy w\<bar> \<le> 1))"
    by blast
  from c have "wallClash e w"
    by (cases "orientation w"; cases "orientation e") (auto simp: wallClash_def)
  with e have "clashLoop (walls s) w" by (auto simp: clashLoop_iff)
  then show "isLegalWall s w = Inr False" by (simp add: isLegalWall_def)
next
  assume "\<lparr> wx = 3, wy = 3, orientation = H \<rparr> \<in> set (walls s)"
  moreover have "wallClash \<lparr> wx = 3, wy = 3, orientation = H \<rparr>
                   \<lparr> wx = 4, wy = 3, orientation = H \<rparr>"
    by (simp add: wallClash_def)
  ultimately have "clashLoop (walls s) \<lparr> wx = 4, wy = 3, orientation = H \<rparr>"
    by (auto simp: clashLoop_iff)
  then show "isLegalWall s \<lparr> wx = 4, wy = 3, orientation = H \<rparr> = Inr False"
    by (simp add: isLegalWall_def)
qed

text \<open>With the horizontal wall at (3,3) placed: the horizontal wall at (4,3) and the
  vertical wall at the same intersection (3,3) are both rejected.\<close>

theorem isLegalWall_rejects_clash_witness:
  "\<lparr> wx = 3, wy = 3, orientation = H \<rparr>
     \<in> set (walls (position (4, 8) (4, 0) [\<lparr> wx = 3, wy = 3, orientation = H \<rparr>])) \<and>
   isLegalWall (position (4, 8) (4, 0) [\<lparr> wx = 3, wy = 3, orientation = H \<rparr>])
     \<lparr> wx = 4, wy = 3, orientation = H \<rparr> = Inr False \<and>
   isLegalWall (position (4, 8) (4, 0) [\<lparr> wx = 3, wy = 3, orientation = H \<rparr>])
     \<lparr> wx = 3, wy = 3, orientation = V \<rparr> = Inr False"
proof -
  let ?s = "position (4, 8) (4, 0) [\<lparr> wx = 3, wy = 3, orientation = H \<rparr>]"
  let ?v = "\<lparr> wx = 3, wy = 3, orientation = V \<rparr>"
  have m: "\<lparr> wx = 3, wy = 3, orientation = H \<rparr> \<in> set (walls ?s)"
    by (simp add: position_fields)
  have "\<exists>e \<in> set (walls ?s).
        (wx e = wx ?v \<and> wy e = wy ?v) \<or>
        (orientation e = orientation ?v \<and>
         (if orientation ?v = H
          then wy e = wy ?v \<and> \<bar>wx e - wx ?v\<bar> \<le> 1
          else wx e = wx ?v \<and> \<bar>wy e - wy ?v\<bar> \<le> 1))"
    by (simp add: position_fields)
  with m isLegalWall_rejects_clash [of ?s ?v]
  show ?thesis by blast
qed

section \<open>The initial state\<close>

text \<open>
  Claim C9. \<^verbatim>\<open>createInitialState()\<close> is the fixed initial state: player 0 (identifier 1) at
  (4,8) with 10 walls, player 1 (identifier 2) at (4,0) with 10 walls, no wall placed, the
  board holding exactly those two pawns, player 0 to move, no winner.
\<close>

theorem createInitialState_fixed:
  "players createInitialState =
     (\<lparr> pid = 1, px = 4, py = 8, pwalls = 10 \<rparr>, \<lparr> pid = 2, px = 4, py = 0, pwalls = 10 \<rparr>) \<and>
   walls createInitialState = [] \<and>
   board createInitialState = occupancy (players createInitialState) \<and>
   boardMatches createInitialState \<and>
   getCell (board createInitialState) 4 8 = Inr (Some 1) \<and>
   getCell (board createInitialState) 4 0 = Inr (Some 2) \<and>
   currentPlayer createInitialState = 0 \<and>
   winner createInitialState = None \<and>
   wallPreview createInitialState = None \<and>
   selectedPlayer createInitialState = None \<and>
   isWallMode createInitialState = False"
  by code_simp

section \<open>Transitions\<close>

lemma setCell_column:
  "hasColumn b x \<Longrightarrow> \<exists>b'. setCell b x y v = Inr b' \<and> length b' = length b"
  by (simp add: setCell_def hasColumn_def)

text \<open>A write to a column that does not exist raises.\<close>

lemma setCell_no_column: "\<not> hasColumn b x \<Longrightarrow> setCell b x y v = Inl TypeError"
  by (auto simp: setCell_def hasColumn_def)

text \<open>\<^verbatim>\<open>applyMove\<close> returns a state when the player index is 0 or 1 and the board has the
  column the pawn leaves and the column it moves to.\<close>

lemma applyMove_returns:
  assumes "playerAt s p = Some pl" and "hasColumn (board s) (px pl)" and "hasColumn (board s) x"
  shows "\<exists>s'. applyMove s p x y = Inr s'"
proof -
  from setCell_column [OF assms(2)] obtain b1
    where b1: "setCell (board s) (px pl) (py pl) 0 = Inr b1" and l: "length b1 = length (board s)"
    by blast
  from assms(3) l have "hasColumn b1 x" by (simp add: hasColumn_def)
  from setCell_column [OF this] obtain b2 where "setCell b1 x y (pid pl) = Inr b2" by blast
  with assms(1) b1 show ?thesis by (simp add: applyMove_def Let_def)
qed

lemma applyMove_winner:
  assumes "applyMove s p x y = Inr s'"
  shows "winner s' = (if p = 1 \<and> y = 8 then Some 1 else if p = 0 \<and> y = 0 then Some 0 else None)"
    and "currentPlayer s' = (if winner s' = None then 1 - p else currentPlayer s)"
  using assms
  by (auto simp: applyMove_def Let_def split: option.splits sum.splits if_splits)

text \<open>
  Claim C2. For a player index \<open>p\<close> that is 0 or 1 and a destination \<open>(x, y)\<close> in a column of
  the board, \<^verbatim>\<open>applyMove(state, p, x, y)\<close> returns a state whose winner is 0 iff \<open>p = 0\<close> and
  \<open>y = 0\<close>, is 1 iff \<open>p = 1\<close> and \<open>y = 8\<close>, and is null for every other destination; when no
  winner is declared the resulting \<^verbatim>\<open>currentPlayer\<close> is \<open>1 - p\<close>, and when one is declared it
  is the \<^verbatim>\<open>currentPlayer\<close> of the input state.
\<close>

theorem applyMove_winner_and_turn:
  assumes "playerAt s p = Some pl" and "hasColumn (board s) (px pl)" and "hasColumn (board s) x"
  shows "\<exists>s'. applyMove s p x y = Inr s' \<and>
           ((winner s' = Some 0) = (p = 0 \<and> y = 0)) \<and>
           ((winner s' = Some 1) = (p = 1 \<and> y = 8)) \<and>
           ((winner s' = None) = (\<not> (p = 0 \<and> y = 0) \<and> \<not> (p = 1 \<and> y = 8))) \<and>
           currentPlayer s' = (if winner s' = None then 1 - p else currentPlayer s)"
proof -
  from applyMove_returns [OF assms] obtain s' where s': "applyMove s p x y = Inr s'" ..
  from applyMove_winner [OF s'] s' show ?thesis by auto
qed

text \<open>Player 0 moving from (4,8) to (4,7) wins nothing and hands the turn to player 1;
  player 0 moving from (4,1) to (4,0) wins and the turn stays.\<close>

theorem applyMove_winner_and_turn_witness:
  "playerAt createInitialState 0 = Some \<lparr> pid = 1, px = 4, py = 8, pwalls = 10 \<rparr> \<and>
   hasColumn (board createInitialState) 4 \<and>
   (\<exists>s'. applyMove createInitialState 0 4 7 = Inr s' \<and> winner s' = None \<and> currentPlayer s' = 1) \<and>
   playerAt (position (4, 1) (3, 6) []) 0 = Some \<lparr> pid = 1, px = 4, py = 1, pwalls = 10 \<rparr> \<and>
   hasColumn (board (position (4, 1) (3, 6) [])) 4 \<and>
   (\<exists>s'. applyMove (position (4, 1) (3, 6) []) 0 4 0 = Inr s' \<and> winner s' = Some 0 \<and>
          currentPlayer s' = currentPlayer (position (4, 1) (3, 6) []))"
proof -
  have a: "playerAt createInitialState 0 = Some \<lparr> pid = 1, px = 4, py = 8, pwalls = 10 \<rparr>"
    by code_simp
  have b: "hasColumn (board createInitialState) 4" by code_simp
  have c: "playerAt (position (4, 1) (3, 6) []) 0 = Some \<lparr> pid = 1, px = 4, py = 1, pwalls = 10 \<rparr>"
    by code_simp
  have d: "hasColumn (board (position (4, 1) (3, 6) [])) 4" by code_simp
  from applyMove_winner_and_turn [OF a _ b, of 7] b
  have "\<exists>s'. applyMove createInitialState 0 4 7 = Inr s' \<and> winner s' = None \<and> currentPlayer s' = 1"
    by auto
  moreover from applyMove_winner_and_turn [OF c _ d, of 0] d
  have "\<exists>s'. applyMove (position (4, 1) (3, 6) []) 0 4 0 = Inr s' \<and> winner s' = Some 0 \<and>
          currentPlayer s' = currentPlayer (position (4, 1) (3, 6) [])"
    by auto
  ultimately show ?thesis using a b c d by blast
qed

text \<open>
  Claim C5. For a state whose \<^verbatim>\<open>currentPlayer\<close> is a player index, \<^verbatim>\<open>applyWall(state, wall)\<close>
  returns a state whose walls are the input's with the given wall appended at the end, in
  which the wall count of the acting player (\<^verbatim>\<open>state.currentPlayer\<close>) is one less and
  nothing else of that player has changed, \<^verbatim>\<open>currentPlayer\<close> is the other player, and the
  opponent (wall count and position), the board and the winner are unchanged. Of the fields
  of the driver, the selection and the wall mode are unchanged and the wall preview is
  cleared.
\<close>

theorem applyWall_frame:
  assumes "playerAt s (currentPlayer s) = Some pl"
  shows "\<exists>s'. applyWall s w = Inr s' \<and>
           walls s' = walls s @ [w] \<and>
           playerAt s' (currentPlayer s) = Some (pl\<lparr> pwalls := pwalls pl - 1 \<rparr>) \<and>
           currentPlayer s' = 1 - currentPlayer s \<and>
           playerAt s' (1 - currentPlayer s) = playerAt s (1 - currentPlayer s) \<and>
           board s' = board s \<and>
           winner s' = winner s \<and>
           selectedPlayer s' = selectedPlayer s \<and>
           isWallMode s' = isWallMode s \<and>
           wallPreview s' = None"
  using assms
  by (auto simp: applyWall_def Let_def playerAt_def setPlayer_def split: if_splits)

text \<open>Player 0 placing the horizontal wall at (4,4) in the initial state.\<close>

theorem applyWall_frame_witness:
  "playerAt createInitialState (currentPlayer createInitialState)
     = Some \<lparr> pid = 1, px = 4, py = 8, pwalls = 10 \<rparr> \<and>
   (\<exists>s'. applyWall createInitialState \<lparr> wx = 4, wy = 4, orientation = H \<rparr> = Inr s' \<and>
          walls s' = [\<lparr> wx = 4, wy = 4, orientation = H \<rparr>] \<and>
          playerAt s' 0 = Some \<lparr> pid = 1, px = 4, py = 8, pwalls = 9 \<rparr> \<and>
          playerAt s' 1 = Some \<lparr> pid = 2, px = 4, py = 0, pwalls = 10 \<rparr> \<and>
          currentPlayer s' = 1 \<and> winner s' = None)"
proof -
  have a: "playerAt createInitialState (currentPlayer createInitialState)
     = Some \<lparr> pid = 1, px = 4, py = 8, pwalls = 10 \<rparr>"
    by code_simp
  have i: "walls createInitialState = []" "currentPlayer createInitialState = 0"
       "winner createInitialState = None"
       "playerAt createInitialState 1 = Some \<lparr> pid = 2, px = 4, py = 0, pwalls = 10 \<rparr>"
    by (simp_all add: createInitialState_def Let_def playerAt_def)
  from applyWall_frame [OF a, of "\<lparr> wx = 4, wy = 4, orientation = H \<rparr>"] a
  show ?thesis by (auto simp: i)
qed

section \<open>Boards and the loop of \<^verbatim>\<open>getLegalMoves\<close>\<close>

lemma upto_0_8: "[0..8] = [0, 1, 2, 3, 4, 5, 6, 7, (8::int)]"
  by code_simp

lemma length_upto_0_8: "length [0..8::int] = 9"
  by (simp add: upto_0_8)

lemma nth_upto_0_8: "n < 9 \<Longrightarrow> [0..8] ! n = int n"
  using nth_upto [of 0 n 8] by simp

lemma map_upto_update:
  assumes "0 \<le> y" and "y < 9"
  shows "(map g [0..8])[nat y := w] = map (\<lambda>j. if j = y then w else g j) [0..8]"
proof (rule nth_equalityI)
  show "length ((map g [0..8])[nat y := w]) = length (map (\<lambda>j. if j = y then w else g j) [0..8])"
    by simp
next
  fix n assume "n < length ((map g [0..8])[nat y := w])"
  then have n: "n < 9" by (simp add: length_upto_0_8)
  with assms show "(map g [0..8])[nat y := w] ! n = map (\<lambda>j. if j = y then w else g j) [0..8] ! n"
    by (auto simp: nth_list_update length_upto_0_8 nth_upto_0_8)
qed

lemma length_grid: "length (grid f) = 9"
  by (simp add: grid_def length_upto_0_8)

lemma nth_grid: "0 \<le> x \<Longrightarrow> x < 9 \<Longrightarrow> grid f ! nat x = map (\<lambda>y. Some (f x y)) [0..8]"
  by (simp add: grid_def length_upto_0_8 nth_upto_0_8)

lemma getCell_grid:
  "isWithinBounds x y \<Longrightarrow> getCell (grid f) x y = Inr (Some (f x y))"
  by (auto simp: getCell_def isWithinBounds_def length_grid nth_grid length_upto_0_8 nth_upto_0_8)

lemma getCell_grid_Some:
  assumes "getCell (grid f) x y = Inr (Some v)"
  shows "isWithinBounds x y"
proof -
  from assms have "0 \<le> x \<and> nat x < 9"
    by (auto simp: getCell_def length_grid split: if_splits)
  then have x: "0 \<le> x" "x < 9" by auto
  then have "grid f ! nat x = map (\<lambda>y. Some (f x y)) [0..8]"
    by (rule nth_grid)
  with assms x have "0 \<le> y \<and> nat y < 9"
    by (auto simp: getCell_def length_grid length_upto_0_8 Let_def split: if_splits)
  with x show ?thesis by (auto simp: isWithinBounds_def)
qed

lemma setCell_grid:
  assumes "isWithinBounds x y"
  shows "setCell (grid f) x y v = Inr (grid (\<lambda>i j. if i = x \<and> j = y then v else f i j))"
proof -
  from assms have x: "0 \<le> x" "x < 9" and y: "0 \<le> y" "y < 9"
    by (simp_all add: isWithinBounds_def)
  have col: "setIndex (grid f ! nat x) y v = map (\<lambda>j. Some (if j = y then v else f x j)) [0..8]"
    using y map_upto_update [OF y, of "\<lambda>j. Some (f x j)" "Some v"]
    by (simp add: nth_grid [OF x] setIndex_def length_upto_0_8 if_distrib cong: if_cong)
  have "(grid f)[nat x := setIndex (grid f ! nat x) y v]
        = map (\<lambda>i. if i = x then map (\<lambda>j. Some (if j = y then v else f x j)) [0..8]
                    else map (\<lambda>j. Some (f i j)) [0..8]) [0..8]"
    unfolding col unfolding grid_def by (rule map_upto_update [OF x])
  also have "\<dots> = grid (\<lambda>i j. if i = x \<and> j = y then v else f i j)"
    unfolding grid_def by (rule map_cong) auto
  finally show ?thesis using x by (simp add: setCell_def length_grid)
qed

lemma grid_cong:
  assumes "\<And>i j. isWithinBounds i j \<Longrightarrow> f i j = g i j"
  shows "grid f = grid g"
  unfolding grid_def
  by (intro map_cong refl) (auto simp: assms isWithinBounds_def)


lemma getCell_column: "hasColumn b x \<Longrightarrow> \<exists>c. getCell b x y = Inr c"
  by (simp add: getCell_def hasColumn_def Let_def)

lemma cells_column: "9 \<le> length b \<Longrightarrow> (x, y) \<in> cells \<Longrightarrow> hasColumn b x"
  by (auto simp: cells_def hasColumn_def)

lemma emptySquares_ok:
  "9 \<le> length b \<Longrightarrow> set sq \<subseteq> cells \<Longrightarrow>
   emptySquares b sq = Inr (filter (\<lambda>(sx, sy). getCell b sx sy = Inr (Some 0)) sq)"
proof (induction sq)
  case Nil
  then show ?case by simp
next
  case (Cons a sq)
  obtain sx sy where a: "a = (sx, sy)" by (cases a)
  with Cons.prems have "hasColumn b sx" by (auto intro: cells_column)
  from getCell_column [OF this] obtain c where "getCell b sx sy = Inr c" ..
  with Cons a show ?case by simp
qed

lemma pushes_pair:
  "pushes s pl opp (x, y) =
     (if x = px opp \<and> y = py opp
      then jumpsFrom s x y
             (filter (\<lambda>(sx, sy). getCell (board s) sx sy = Inr (Some 0))
                (getAdjacentSquares x y))
      else if getCell (board s) x y = Inr (Some 0) \<and>
              \<not> isWallBlocking s (px pl) (py pl) x y
      then [\<lparr> mx = x, my = y, mtype = Normal \<rparr>]
      else [])"
  by (simp add: pushes_def)

lemma movesLoop_ok:
  "9 \<le> length (board s) \<Longrightarrow> set sq \<subseteq> cells \<Longrightarrow>
   movesLoop s pl opp sq acc = Inr (acc @ concat (map (pushes s pl opp) sq))"
proof (induction sq arbitrary: acc)
  case Nil
  then show ?case by simp
next
  case (Cons a sq)
  obtain x y where a: "a = (x, y)" by (cases a)
  with Cons.prems have "hasColumn (board s) x" by (auto intro: cells_column)
  from getCell_column [OF this] obtain c where c: "getCell (board s) x y = Inr c" ..
  have e: "emptySquares (board s) (getAdjacentSquares x y)
           = Inr (filter (\<lambda>(sx, sy). getCell (board s) sx sy = Inr (Some 0))
                    (getAdjacentSquares x y))"
    using Cons.prems(1) getAdjacentSquares_cells by (rule emptySquares_ok)
  from Cons.prems have "set sq \<subseteq> cells" by simp
  note ih = Cons.IH [OF Cons.prems(1) this]
  show ?case
  proof (cases "x = px opp \<and> y = py opp")
    case True
    with e show ?thesis unfolding a by (simp add: ih pushes_pair)
  next
    case False
    then show ?thesis unfolding a by (auto simp: c ih pushes_pair)
  qed
qed

lemma getLegalMoves_ok:
  assumes "9 \<le> length (board s)"
    and "playerAt s p = Some pl" and "playerAt s (1 - p) = Some opp"
  shows "getLegalMoves s p
         = Inr (concat (map (pushes s pl opp) (getAdjacentSquares (px pl) (py pl))))"
  using assms movesLoop_ok [OF assms(1) getAdjacentSquares_cells, of pl opp "px pl" "py pl" "[]"]
  by (simp add: getLegalMoves_def)

text \<open>Every destination that \<^verbatim>\<open>getLegalMoves\<close> returns is an empty square of the board.\<close>

lemma emptySquares_empty:
  "emptySquares b sq = Inr keep \<Longrightarrow> (sx, sy) \<in> set keep \<Longrightarrow> getCell b sx sy = Inr (Some 0)"
  by (induction b sq arbitrary: keep rule: emptySquares.induct)
     (auto split: sum.splits if_splits)

lemma movesLoop_empty:
  "movesLoop s pl opp sq acc = Inr ms \<Longrightarrow>
   \<forall>m \<in> set acc. getCell (board s) (mx m) (my m) = Inr (Some 0) \<Longrightarrow>
   m \<in> set ms \<Longrightarrow> getCell (board s) (mx m) (my m) = Inr (Some 0)"
proof (induction s pl opp sq acc rule: movesLoop.induct)
  case (1 s pl opp moves)
  then show ?case by simp
next
  case (2 s pl opp x y rest moves)
  show ?case
  proof (cases "x = px opp \<and> y = py opp")
    case True
    with "2.prems"(1) obtain jm where jm: "emptySquares (board s) (getAdjacentSquares x y) = Inr jm"
      and r: "movesLoop s pl opp rest (moves @ jumpsFrom s x y jm) = Inr ms"
      by (auto split: sum.splits)
    have "\<forall>m \<in> set (moves @ jumpsFrom s x y jm). getCell (board s) (mx m) (my m) = Inr (Some 0)"
      using "2.prems"(2) emptySquares_empty [OF jm] by (auto simp: jumpsFrom_def)
    from "2.IH"(1) [OF True jm r this "2.prems"(3)] show ?thesis .
  next
    case False
    with "2.prems"(1) obtain c where c: "getCell (board s) x y = Inr c"
      by (auto split: sum.splits)
    show ?thesis
    proof (cases "c = Some 0 \<and> \<not> isWallBlocking s (px pl) (py pl) x y")
      case True
      with False c "2.prems"(1)
      have r: "movesLoop s pl opp rest (moves @ [\<lparr> mx = x, my = y, mtype = Normal \<rparr>]) = Inr ms"
        by (auto split: if_splits)
      have "\<forall>m \<in> set (moves @ [\<lparr> mx = x, my = y, mtype = Normal \<rparr>]).
              getCell (board s) (mx m) (my m) = Inr (Some 0)"
        using "2.prems"(2) c True by auto
      from "2.IH"(2) [OF False c True r this "2.prems"(3)] show ?thesis .
    next
      case nt: False
      with False c "2.prems"(1) have r: "movesLoop s pl opp rest moves = Inr ms"
        by (auto split: if_splits)
      from "2.IH"(3) [OF False c nt r "2.prems"(2) "2.prems"(3)] show ?thesis .
    qed
  qed
qed

lemma getLegalMoves_empty:
  "getLegalMoves s p = Inr ms \<Longrightarrow> m \<in> set ms \<Longrightarrow>
   getCell (board s) (mx m) (my m) = Inr (Some 0)"
  by (auto simp: getLegalMoves_def split: option.splits dest: movesLoop_empty)

section \<open>Board occupancy under the transitions\<close>

lemma boardMatches_empty_square:
  assumes bm: "boardMatches s" and e: "getCell (board s) x y = Inr (Some 0)"
  shows "isWithinBounds x y"
    and "(x, y) \<noteq> (px (fst (players s)), py (fst (players s)))"
    and "(x, y) \<noteq> (px (snd (players s)), py (snd (players s)))"
proof -
  from bm have b: "board s = grid (occupant (players s))"
    by (simp add: boardMatches_def occupancy_def)
  with e show w: "isWithinBounds x y" by (auto dest: getCell_grid_Some)
  from e b getCell_grid [OF w, of "occupant (players s)"]
  have z: "occupant (players s) x y = 0" by simp
  from bm have "pid (fst (players s)) \<noteq> 0" "pid (snd (players s)) \<noteq> 0"
    by (simp_all add: boardMatches_def)
  with z show "(x, y) \<noteq> (px (fst (players s)), py (fst (players s)))"
    and "(x, y) \<noteq> (px (snd (players s)), py (snd (players s)))"
    by (auto simp: occupant_def split: if_splits)
qed

lemma occupant_moved:
  assumes p: "p = 0 \<and> pl = fst ps \<or> p = 1 \<and> pl = snd ps"
    and d: "\<not> (px (fst ps) = px (snd ps) \<and> py (fst ps) = py (snd ps))"
    and n1: "\<not> (x = px (fst ps) \<and> y = py (fst ps))"
    and n2: "\<not> (x = px (snd ps) \<and> y = py (snd ps))"
  shows "(if i = x \<and> j = y then pid pl
          else if i = px pl \<and> j = py pl then 0 else occupant ps i j)
         = occupant (setPlayer ps p (pl\<lparr> px := x, py := y \<rparr>)) i j"
proof (cases "i = x \<and> j = y")
  case True
  from p show ?thesis
  proof
    assume "p = 0 \<and> pl = fst ps"
    with True show ?thesis by (auto simp: occupant_def setPlayer_def)
  next
    assume "p = 1 \<and> pl = snd ps"
    with True n1 show ?thesis by (auto simp: occupant_def setPlayer_def)
  qed
next
  case nd: False
  from p show ?thesis
  proof
    assume q: "p = 0 \<and> pl = fst ps"
    show ?thesis
    proof (cases "i = px (fst ps) \<and> j = py (fst ps)")
      case True
      with q nd d show ?thesis by (auto simp: occupant_def setPlayer_def)
    next
      case False
      with q nd show ?thesis by (auto simp: occupant_def setPlayer_def)
    qed
  next
    assume q: "p = 1 \<and> pl = snd ps"
    show ?thesis
    proof (cases "i = px (snd ps) \<and> j = py (snd ps)")
      case True
      with q nd d show ?thesis by (auto simp: occupant_def setPlayer_def)
    next
      case False
      with q nd show ?thesis by (auto simp: occupant_def setPlayer_def)
    qed
  qed
qed

lemma applyMove_board:
  assumes bm: "boardMatches s" and pl: "playerAt s p = Some pl"
    and e: "getCell (board s) x y = Inr (Some 0)"
  shows "\<exists>s'. applyMove s p x y = Inr s' \<and> boardMatches s' \<and>
           players s' = setPlayer (players s) p (pl\<lparr> px := x, py := y \<rparr>)"
proof -
  let ?ps = "players s"
  let ?ps' = "setPlayer ?ps p (pl\<lparr> px := x, py := y \<rparr>)"
  from bm have b: "board s = grid (occupant ?ps)"
    by (simp add: boardMatches_def occupancy_def)
  note sq = boardMatches_empty_square [OF bm e]
  from sq have n1: "\<not> (x = px (fst ?ps) \<and> y = py (fst ?ps))"
    and n2: "\<not> (x = px (snd ?ps) \<and> y = py (snd ?ps))" by simp_all
  from bm have d: "\<not> (px (fst ?ps) = px (snd ?ps) \<and> py (fst ?ps) = py (snd ?ps))"
    by (simp add: boardMatches_def)
  from bm have ids: "pid (fst ?ps) \<noteq> 0" "pid (snd ?ps) \<noteq> 0"
    by (simp_all add: boardMatches_def)
  from bm have wb: "isWithinBounds (px (fst ?ps)) (py (fst ?ps))"
    "isWithinBounds (px (snd ?ps)) (py (snd ?ps))"
    by (simp_all add: boardMatches_def)
  from pl have p: "p = 0 \<and> pl = fst ?ps \<or> p = 1 \<and> pl = snd ?ps"
    by (auto simp: playerAt_def split: if_splits)
  with wb have w: "isWithinBounds (px pl) (py pl)" by auto
  let ?f1 = "\<lambda>i j. if i = px pl \<and> j = py pl then 0 else occupant ?ps i j"
  let ?f2 = "\<lambda>i j. if i = x \<and> j = y then pid pl else ?f1 i j"
  have s1: "setCell (board s) (px pl) (py pl) 0 = Inr (grid ?f1)"
    unfolding b by (rule setCell_grid [OF w])
  have s2: "setCell (grid ?f1) x y (pid pl) = Inr (grid ?f2)"
    by (rule setCell_grid [OF sq(1)])
  have g: "grid ?f2 = occupancy ?ps'"
    unfolding occupancy_def
    by (rule grid_cong) (rule occupant_moved [OF p d n1 n2])
  define s' where "s' = s\<lparr> board := occupancy ?ps', players := ?ps',
               currentPlayer :=
                 (if (if p = 1 \<and> y = 8 then Some 1
                      else if p = 0 \<and> y = 0 then Some (0::int) else None) = None
                  then 1 - p else currentPlayer s),
               winner := (if p = 1 \<and> y = 8 then Some 1
                          else if p = 0 \<and> y = 0 then Some 0 else None),
               selectedPlayer := None \<rparr>"
  from s1 s2 pl g have a: "applyMove s p x y = Inr s'"
    by (simp add: applyMove_def Let_def s'_def)
  have ps': "players s' = ?ps'" and b': "board s' = occupancy ?ps'"
    by (simp_all add: s'_def)
  from p have "boardMatches s'"
  proof
    assume "p = 0 \<and> pl = fst ?ps"
    with sq(1) wb ids n2 show ?thesis
      by (simp add: boardMatches_def ps' b' setPlayer_def)
  next
    assume "p = 1 \<and> pl = snd ?ps"
    with sq(1) wb ids n1 show ?thesis
      by (auto simp: boardMatches_def ps' b' setPlayer_def)
  qed
  with a ps' show ?thesis by blast
qed

lemma applyWall_board:
  assumes bm: "boardMatches s" and pl: "playerAt s (currentPlayer s) = Some pl"
  shows "\<exists>s'. applyWall s w = Inr s' \<and> boardMatches s'"
proof -
  from pl have p: "currentPlayer s = 0 \<and> pl = fst (players s) \<or>
                   currentPlayer s = 1 \<and> pl = snd (players s)"
    by (auto simp: playerAt_def split: if_splits)
  let ?ps' = "setPlayer (players s) (currentPlayer s) (pl\<lparr> pwalls := pwalls pl - 1 \<rparr>)"
  from p have o: "occupant ?ps' = occupant (players s)"
    by (auto simp: occupant_def setPlayer_def fun_eq_iff)
  from pl have a: "applyWall s w = Inr (s\<lparr> walls := walls s @ [w], players := ?ps',
                      currentPlayer := 1 - currentPlayer s, wallPreview := None \<rparr>)"
    by (simp add: applyWall_def Let_def)
  from p bm have "boardMatches (s\<lparr> walls := walls s @ [w], players := ?ps',
                      currentPlayer := 1 - currentPlayer s, wallPreview := None \<rparr>)"
    unfolding boardMatches_def occupancy_def
    by (auto simp: o) (auto simp: setPlayer_def)
  with a show ?thesis by simp
qed

text \<open>A move that \<^verbatim>\<open>getLegalMoves\<close> returned keeps the board in step with the pawns.\<close>

lemma legal_move_keeps_board:
  assumes "boardMatches s" and "playerAt s p = Some pl"
    and "getLegalMoves s p = Inr ms" and "m \<in> set ms"
  shows "\<exists>s'. applyMove s p (mx m) (my m) = Inr s' \<and> boardMatches s'"
  using applyMove_board [OF assms(1,2) getLegalMoves_empty [OF assms(3,4)]] by blast

text \<open>A move to an empty square of a board that matches the pawns: the board matches the
  pawns afterwards, the destination holds the mover's identifier, and the square left is
  empty.\<close>

lemma applyMove_to_empty_square:
  assumes bm: "boardMatches s" and pl: "playerAt s p = Some pl"
    and e: "getCell (board s) x y = Inr (Some 0)"
  shows "\<exists>s'. applyMove s p x y = Inr s' \<and> boardMatches s' \<and>
            playerAt s' p = Some (pl\<lparr> px := x, py := y \<rparr>) \<and>
            playerAt s' (1 - p) = playerAt s (1 - p) \<and>
            getCell (board s') x y = Inr (Some (pid pl)) \<and>
            getCell (board s') (px pl) (py pl) = Inr (Some 0)"
proof -
  from applyMove_board [OF bm pl e] obtain s' where s': "applyMove s p x y = Inr s'"
    and bm': "boardMatches s'"
    and ps': "players s' = setPlayer (players s) p (pl\<lparr> px := x, py := y \<rparr>)"
    by blast
  note sq = boardMatches_empty_square [OF bm e]
  from pl have p: "p = 0 \<and> pl = fst (players s) \<or> p = 1 \<and> pl = snd (players s)"
    by (auto simp: playerAt_def split: if_splits)
  from p ps' have mover: "playerAt s' p = Some (pl\<lparr> px := x, py := y \<rparr>)"
    and other: "playerAt s' (1 - p) = playerAt s (1 - p)"
    by (auto simp: playerAt_def setPlayer_def)
  from bm' have b': "board s' = grid (occupant (players s'))"
    by (simp add: boardMatches_def occupancy_def)
  from p bm have w: "isWithinBounds (px pl) (py pl)" by (auto simp: boardMatches_def)
  from sq have n1: "\<not> (x = px (fst (players s)) \<and> y = py (fst (players s)))"
    and n2: "\<not> (x = px (snd (players s)) \<and> y = py (snd (players s)))" by simp_all
  from bm have d: "\<not> (px (fst (players s)) = px (snd (players s)) \<and>
                      py (fst (players s)) = py (snd (players s)))"
    by (simp add: boardMatches_def)
  have "occupant (players s') x y = pid pl"
    and "occupant (players s') (px pl) (py pl) = 0"
    unfolding ps'
    using occupant_moved [OF p d n1 n2, of x y, symmetric]
      occupant_moved [OF p d n1 n2, of "px pl" "py pl", symmetric] p n1 n2
    by auto
  with b' getCell_grid [OF sq(1), of "occupant (players s')"]
    getCell_grid [OF w, of "occupant (players s')"]
  have "getCell (board s') x y = Inr (Some (pid pl))"
    and "getCell (board s') (px pl) (py pl) = Inr (Some 0)"
    by simp_all
  with s' bm' mover other show ?thesis by blast
qed

text \<open>Every transition that the legality queries approved keeps the board in step with
  the pawns.\<close>

lemma validated_keeps_board:
  assumes bm: "boardMatches s" and v: "validated s a = Some s'"
  shows "boardMatches s'"
proof (cases a)
  case (Move x y)
  with v obtain ms m where ms: "getLegalMoves s (currentPlayer s) = Inr ms"
    and f: "find (\<lambda>m. mx m = x \<and> my m = y) ms = Some m"
    and a: "applyMove s (currentPlayer s) x y = Inr s'"
    by (auto split: sum.splits option.splits)
  from f have m: "m \<in> set ms" and xy: "mx m = x" "my m = y"
    by (auto simp: find_Some_iff)
  from ms obtain pl where pl: "playerAt s (currentPlayer s) = Some pl"
    by (auto simp: getLegalMoves_def split: option.splits)
  from legal_move_keeps_board [OF bm pl ms m] a xy show ?thesis by auto
next
  case (Place w)
  with v have a: "applyWall s w = Inr s'"
    by (auto split: sum.splits if_splits)
  then obtain pl where "playerAt s (currentPlayer s) = Some pl"
    by (auto simp: applyWall_def split: option.splits)
  from applyWall_board [OF bm this, of w] a show ?thesis by auto
qed

text \<open>
  Claim C7. For a state whose board occupancy equals exactly the two pawns' positions, the
  state returned by a transition again has board occupancy equal to exactly the two pawns'
  positions: by \<^verbatim>\<open>applyMove\<close> to a destination that \<^verbatim>\<open>getLegalMoves\<close> returned (the
  transitions take validated input, and the driver passes no other destination), where
  moreover the vacated square is empty, the destination holds the mover's identifier and the
  other pawn has not moved; by \<^verbatim>\<open>applyWall\<close>; and so by every validated transition.
\<close>

theorem transitions_keep_board:
  "(boardMatches s \<and> playerAt s p = Some pl \<and> getLegalMoves s p = Inr ms \<and> m \<in> set ms \<longrightarrow>
      (\<exists>s'. applyMove s p (mx m) (my m) = Inr s' \<and> boardMatches s' \<and>
            playerAt s' p = Some (pl\<lparr> px := mx m, py := my m \<rparr>) \<and>
            playerAt s' (1 - p) = playerAt s (1 - p) \<and>
            getCell (board s') (mx m) (my m) = Inr (Some (pid pl)) \<and>
            getCell (board s') (px pl) (py pl) = Inr (Some 0))) \<and>
   (boardMatches s \<and> playerAt s (currentPlayer s) = Some pl \<longrightarrow>
      (\<exists>s'. applyWall s w = Inr s' \<and> boardMatches s')) \<and>
   (boardMatches s \<and> validated s a = Some t \<longrightarrow> boardMatches t)"
proof (intro conjI impI)
  assume "boardMatches s \<and> playerAt s p = Some pl \<and> getLegalMoves s p = Inr ms \<and> m \<in> set ms"
  then have bm: "boardMatches s" and pl: "playerAt s p = Some pl"
    and ms: "getLegalMoves s p = Inr ms" and m: "m \<in> set ms" by simp_all
  from applyMove_to_empty_square [OF bm pl getLegalMoves_empty [OF ms m]]
  show "\<exists>s'. applyMove s p (mx m) (my m) = Inr s' \<and> boardMatches s' \<and>
            playerAt s' p = Some (pl\<lparr> px := mx m, py := my m \<rparr>) \<and>
            playerAt s' (1 - p) = playerAt s (1 - p) \<and>
            getCell (board s') (mx m) (my m) = Inr (Some (pid pl)) \<and>
            getCell (board s') (px pl) (py pl) = Inr (Some 0)" .
next
  assume "boardMatches s \<and> playerAt s (currentPlayer s) = Some pl"
  then show "\<exists>s'. applyWall s w = Inr s' \<and> boardMatches s'"
    by (blast intro: applyWall_board)
next
  assume "boardMatches s \<and> validated s a = Some t"
  then show "boardMatches t" by (blast intro: validated_keeps_board)
qed

text \<open>In the initial state: player 0 moving to (4,7), one of its three legal moves, and
  player 0 placing a wall.\<close>

theorem transitions_keep_board_witness:
  "boardMatches createInitialState \<and>
   getLegalMoves createInitialState 0
     = Inr [\<lparr> mx = 4, my = 7, mtype = Normal \<rparr>, \<lparr> mx = 3, my = 8, mtype = Normal \<rparr>,
            \<lparr> mx = 5, my = 8, mtype = Normal \<rparr>] \<and>
   (\<exists>s'. applyMove createInitialState 0 4 7 = Inr s' \<and> boardMatches s' \<and>
         getCell (board s') 4 7 = Inr (Some 1) \<and> getCell (board s') 4 8 = Inr (Some 0)) \<and>
   (\<exists>s'. applyWall createInitialState \<lparr> wx = 4, wy = 4, orientation = H \<rparr> = Inr s' \<and>
         boardMatches s') \<and>
   validated createInitialState (Move 4 7)
     = Some ((position (4, 7) (4, 0) [])\<lparr> currentPlayer := 1 \<rparr>) \<and>
   boardMatches ((position (4, 7) (4, 0) [])\<lparr> currentPlayer := 1 \<rparr>)"
proof -
  let ?pl = "\<lparr> pid = 1, px = 4, py = 8, pwalls = 10 \<rparr>"
  let ?m = "\<lparr> mx = 4, my = 7, mtype = Normal \<rparr>"
  let ?ms = "[?m, \<lparr> mx = 3, my = 8, mtype = Normal \<rparr>, \<lparr> mx = 5, my = 8, mtype = Normal \<rparr>]"
  have a: "boardMatches createInitialState" by code_simp
  have b: "playerAt createInitialState 0 = Some ?pl" by code_simp
  have c: "getLegalMoves createInitialState 0 = Inr ?ms" by code_simp
  have d: "currentPlayer createInitialState = 0" by code_simp
  have e: "?m \<in> set ?ms" by simp
  have t: "validated createInitialState (Move 4 7)
             = Some ((position (4, 7) (4, 0) [])\<lparr> currentPlayer := 1 \<rparr>)"
    by code_simp
  from a b c d e t
    transitions_keep_board [of createInitialState 0 ?pl ?ms ?m
      "\<lparr> wx = 4, wy = 4, orientation = H \<rparr>" "Move 4 7"
      "(position (4, 7) (4, 0) [])\<lparr> currentPlayer := 1 \<rparr>"]
  show ?thesis by auto
qed

section \<open>Jumps\<close>

lemma distinct_getAdjacentSquares: "distinct (getAdjacentSquares x y)"
  by (simp add: getAdjacentSquares_def directions_def)

lemma adjacent_differs: "(u, v) \<in> set (getAdjacentSquares x y) \<Longrightarrow> \<not> (u = x \<and> v = y)"
  by (auto simp: mem_getAdjacentSquares)

lemma jumpsFrom_filter:
  "jumpsFrom s x y (filter (\<lambda>(sx, sy). getCell (board s) sx sy = Inr (Some 0)) sq)
   = map (\<lambda>(sx, sy). \<lparr> mx = sx, my = sy, mtype = Jump \<rparr>)
       (filter (\<lambda>(sx, sy). getCell (board s) sx sy = Inr (Some 0) \<and>
                            \<not> isWallBlocking s x y sx sy) sq)"
  by (simp add: jumpsFrom_def case_prod_unfold)

lemma pushes_opponent:
  "pushes s pl opp (px opp, py opp)
   = map (\<lambda>(sx, sy). \<lparr> mx = sx, my = sy, mtype = Jump \<rparr>)
       (filter (\<lambda>(sx, sy). getCell (board s) sx sy = Inr (Some 0) \<and>
                            \<not> isWallBlocking s (px opp) (py opp) sx sy)
          (getAdjacentSquares (px opp) (py opp)))"
  by (simp add: pushes_pair jumpsFrom_filter)

lemma pushes_not_opponent:
  assumes "m \<in> set (pushes s pl opp sq)"
  shows "\<not> (mx m = px opp \<and> my m = py opp)"
proof (cases "sq = (px opp, py opp)")
  case True
  with assms obtain sx sy where "(sx, sy) \<in> set (getAdjacentSquares (px opp) (py opp))"
    and "m = \<lparr> mx = sx, my = sy, mtype = Jump \<rparr>"
    by (auto simp: pushes_opponent)
  then show ?thesis using adjacent_differs by auto
next
  case False
  with assms show ?thesis
    by (cases sq) (auto simp: pushes_pair split: if_splits)
qed

lemma jumps_of_pushes:
  "filter (\<lambda>m. mtype m = Jump) (pushes s pl opp sq)
   = (if sq = (px opp, py opp) then pushes s pl opp (px opp, py opp) else [])"
proof (cases "sq = (px opp, py opp)")
  case True
  then show ?thesis
    by (simp add: pushes_opponent filter_map comp_def case_prod_unfold)
next
  case False
  then show ?thesis by (cases sq) (auto simp: pushes_pair)
qed

lemma concat_single:
  "distinct xs \<Longrightarrow> a \<in> set xs \<Longrightarrow> concat (map (\<lambda>x. if x = a then J else []) xs) = J"
proof (induction xs)
  case Nil
  then show ?case by simp
next
  case (Cons x xs)
  show ?case
  proof (cases "x = a")
    case True
    with Cons.prems have "a \<notin> set xs" by simp
    then have "concat (map (\<lambda>x. if x = a then J else []) xs) = []"
      by (induction xs) auto
    with True show ?thesis by simp
  next
    case False
    with Cons show ?thesis by simp
  qed
qed

text \<open>
  Claim C8. In a state whose board occupancy matches the pawns, with the opponent on the
  square next to the acting pawn in one of the four directions, the legal moves of the
  acting player include, with type jump, the square two steps away in that direction when
  that square is on the board and no wall blocks the step onto it from the opponent's
  square (it is empty, since neither pawn stands on it), and include no move onto the
  square of the opponent.
\<close>

theorem jump_over_adjacent_opponent:
  assumes bm: "boardMatches s"
    and pl: "playerAt s p = Some pl" and opp: "playerAt s (1 - p) = Some opp"
    and dir: "(dx, dy) \<in> set directions"
    and ox: "px opp = px pl + dx" and oy: "py opp = py pl + dy"
    and land: "isWithinBounds (px opp + dx) (py opp + dy)"
    and open_step: "\<not> isWallBlocking s (px opp) (py opp) (px opp + dx) (py opp + dy)"
  shows "\<exists>ms. getLegalMoves s p = Inr ms \<and>
           \<lparr> mx = px opp + dx, my = py opp + dy, mtype = Jump \<rparr> \<in> set ms \<and>
           (\<forall>m \<in> set ms. \<not> (mx m = px opp \<and> my m = py opp))"
proof -
  from bm have b: "board s = grid (occupant (players s))"
    by (simp add: boardMatches_def occupancy_def)
  then have len: "9 \<le> length (board s)" by (simp add: length_grid)
  let ?adj = "getAdjacentSquares (px pl) (py pl)"
  let ?ms = "concat (map (pushes s pl opp) ?adj)"
  have ms: "getLegalMoves s p = Inr ?ms"
    by (rule getLegalMoves_ok [OF len pl opp])
  from pl opp have who: "pl = fst (players s) \<and> opp = snd (players s) \<or>
                         pl = snd (players s) \<and> opp = fst (players s)"
    by (auto simp: playerAt_def split: if_splits)
  with bm have ob: "isWithinBounds (px opp) (py opp)"
    by (auto simp: boardMatches_def)
  from dir have unit: "\<bar>dx\<bar> + \<bar>dy\<bar> = 1"
    by (auto simp: directions_def)
  from unit ox oy ob have adj: "(px opp, py opp) \<in> set ?adj"
    by (simp add: mem_getAdjacentSquares)
  from unit land have nb: "(px opp + dx, py opp + dy) \<in> set (getAdjacentSquares (px opp) (py opp))"
    by (simp add: mem_getAdjacentSquares)
  from unit ox oy who have "occupant (players s) (px opp + dx) (py opp + dy) = 0"
    by (auto simp: occupant_def)
  with b getCell_grid [OF land, of "occupant (players s)"]
  have empty: "getCell (board s) (px opp + dx) (py opp + dy) = Inr (Some 0)" by simp
  from nb empty open_step
  have "\<lparr> mx = px opp + dx, my = py opp + dy, mtype = Jump \<rparr>
          \<in> set (pushes s pl opp (px opp, py opp))"
    by (force simp: pushes_opponent)
  with adj have "\<lparr> mx = px opp + dx, my = py opp + dy, mtype = Jump \<rparr> \<in> set ?ms"
    by auto
  moreover have "\<forall>m \<in> set ?ms. \<not> (mx m = px opp \<and> my m = py opp)"
    using pushes_not_opponent by auto
  ultimately show ?thesis using ms by blast
qed

text \<open>Player 0 at (4,5) below player 1 at (4,4), no walls: the jump to (4,3) is legal, no
  move goes to (4,4).\<close>

theorem jump_over_adjacent_opponent_witness:
  "boardMatches (position (4, 5) (4, 4) []) \<and>
   (\<exists>ms. getLegalMoves (position (4, 5) (4, 4) []) 0 = Inr ms \<and>
          \<lparr> mx = 4, my = 3, mtype = Jump \<rparr> \<in> set ms \<and>
          (\<forall>m \<in> set ms. \<not> (mx m = 4 \<and> my m = 4)))"
proof -
  let ?s = "position (4, 5) (4, 4) []"
  let ?pl = "\<lparr> pid = 1, px = 4, py = 5, pwalls = 10 \<rparr>"
  let ?opp = "\<lparr> pid = 2, px = 4, py = 4, pwalls = 10 \<rparr>"
  have bm: "boardMatches ?s" by code_simp
  have pl: "playerAt ?s 0 = Some ?pl" by code_simp
  have opp: "playerAt ?s (1 - 0) = Some ?opp" by code_simp
  have dir: "(0, -1) \<in> set directions" by code_simp
  have land: "isWithinBounds (px ?opp + 0) (py ?opp + (-1))" by code_simp
  have op: "\<not> isWallBlocking ?s (px ?opp) (py ?opp) (px ?opp + 0) (py ?opp + (-1))"
    by code_simp
  from jump_over_adjacent_opponent [OF bm pl opp dir _ _ land op] bm
  show ?thesis by simp
qed

text \<open>
  When the opponent stands on a square adjacent to the acting pawn and the board has its
  columns, the jumps that \<^verbatim>\<open>getLegalMoves\<close> returns are the squares adjacent to the opponent
  that read as empty and that no wall separates from the opponent's square, in the order of
  \<^verbatim>\<open>getAdjacentSquares\<close>.
\<close>

lemma jumps_from_opponent_square:
  assumes len: "9 \<le> length (board s)"
    and pl: "playerAt s p = Some pl" and opp: "playerAt s (1 - p) = Some opp"
    and adj: "(px opp, py opp) \<in> set (getAdjacentSquares (px pl) (py pl))"
  shows "\<exists>ms. getLegalMoves s p = Inr ms \<and>
           filter (\<lambda>m. mtype m = Jump) ms
           = map (\<lambda>(sx, sy). \<lparr> mx = sx, my = sy, mtype = Jump \<rparr>)
               (filter (\<lambda>(sx, sy). getCell (board s) sx sy = Inr (Some 0) \<and>
                                    \<not> isWallBlocking s (px opp) (py opp) sx sy)
                  (getAdjacentSquares (px opp) (py opp)))"
proof -
  let ?adj = "getAdjacentSquares (px pl) (py pl)"
  let ?ms = "concat (map (pushes s pl opp) ?adj)"
  have ms: "getLegalMoves s p = Inr ?ms"
    by (rule getLegalMoves_ok [OF len pl opp])
  have "filter (\<lambda>m. mtype m = Jump) ?ms
        = concat (map (\<lambda>sq. if sq = (px opp, py opp)
                              then pushes s pl opp (px opp, py opp) else []) ?adj)"
    by (simp add: filter_concat comp_def jumps_of_pushes)
  also have "\<dots> = pushes s pl opp (px opp, py opp)"
    by (rule concat_single [OF distinct_getAdjacentSquares adj])
  finally show ?thesis using ms by (simp add: pushes_opponent)
qed

text \<open>A wall blocks a step whatever its place in the collection.\<close>

lemma wallLoop_iff:
  "wallLoop a b c d ws = (\<exists>w \<in> set ws. wallBlocks a b c d w)"
  by (induction ws) auto

lemma isWallBlocking_iff:
  "isWallBlocking s fromX fromY toX toY =
     (\<exists>w \<in> set (walls s).
        wallBlocks (min fromX toX) (max fromX toX) (min fromY toY) (max fromY toY) w)"
  by (simp add: isWallBlocking_def Let_def wallLoop_iff)

text \<open>
  A wall that blocks the step between the squares \<open>(a, b)\<close> and \<open>(c, d)\<close> blocks no step
  from \<open>(c, d)\<close> to any of its other neighbours.
\<close>

lemma separating_wall_elsewhere:
  assumes near: "\<bar>a - c\<bar> + \<bar>b - d\<bar> = (1::int)"
    and next_to: "\<bar>c - u\<bar> + \<bar>d - v\<bar> = (1::int)"
    and other: "\<not> (u = a \<and> v = b)"
    and sep: "wallBlocks (min a c) (max a c) (min b d) (max b d) w"
  shows "\<not> wallBlocks (min c u) (max c u) (min d v) (max d v) w"
  using assms unfolding wallBlocks_def
  by (cases "orientation w") (simp_all, arith+)

text \<open>On a board that matches the pawns, a square next to the opponent is empty unless the
  acting pawn stands on it.\<close>

lemma jumps_on_matching_board:
  assumes bm: "boardMatches s"
    and pl: "playerAt s p = Some pl" and opp: "playerAt s (1 - p) = Some opp"
    and adj: "(px opp, py opp) \<in> set (getAdjacentSquares (px pl) (py pl))"
  shows "\<exists>ms. getLegalMoves s p = Inr ms \<and>
           filter (\<lambda>m. mtype m = Jump) ms
           = map (\<lambda>(sx, sy). \<lparr> mx = sx, my = sy, mtype = Jump \<rparr>)
               (filter (\<lambda>(sx, sy). \<not> (sx = px pl \<and> sy = py pl) \<and>
                                    \<not> isWallBlocking s (px opp) (py opp) sx sy)
                  (getAdjacentSquares (px opp) (py opp)))"
proof -
  from bm have b: "board s = grid (occupant (players s))"
    by (simp add: boardMatches_def occupancy_def)
  then have len: "9 \<le> length (board s)" by (simp add: length_grid)
  from bm have ids: "pid (fst (players s)) \<noteq> 0" "pid (snd (players s)) \<noteq> 0"
    by (simp_all add: boardMatches_def)
  from pl opp have who: "pl = fst (players s) \<and> opp = snd (players s) \<or>
                         pl = snd (players s) \<and> opp = fst (players s)"
    by (auto simp: playerAt_def split: if_splits)
  have empty: "(getCell (board s) sx sy = Inr (Some 0)) = (\<not> (sx = px pl \<and> sy = py pl))"
    if n: "(sx, sy) \<in> set (getAdjacentSquares (px opp) (py opp))" for sx sy
  proof -
    from n have inb: "isWithinBounds sx sy" by (simp add: mem_getAdjacentSquares)
    from n have no: "\<not> (sx = px opp \<and> sy = py opp)" by (rule adjacent_differs)
    from who no ids have "(occupant (players s) sx sy = 0) = (\<not> (sx = px pl \<and> sy = py pl))"
      by (auto simp: occupant_def)
    with b getCell_grid [OF inb, of "occupant (players s)"] show ?thesis by simp
  qed
  have "filter (\<lambda>(sx, sy). getCell (board s) sx sy = Inr (Some 0) \<and>
                            \<not> isWallBlocking s (px opp) (py opp) sx sy)
          (getAdjacentSquares (px opp) (py opp))
        = filter (\<lambda>(sx, sy). \<not> (sx = px pl \<and> sy = py pl) \<and>
                            \<not> isWallBlocking s (px opp) (py opp) sx sy)
          (getAdjacentSquares (px opp) (py opp))"
    by (rule filter_cong) (auto simp: empty)
  with jumps_from_opponent_square [OF len pl opp adj] show ?thesis by simp
qed

lemma playerAt_walls: "playerAt (s\<lparr> walls := ws \<rparr>) i = playerAt s i"
  by (simp add: playerAt_def)

text \<open>
  Claim C10. In a state whose board matches the pawns, with the opponent on a square
  adjacent to the acting pawn, the jumps that \<^verbatim>\<open>getLegalMoves\<close> returns are exactly the
  squares adjacent to the opponent, other than the acting pawn's own, that no wall separates
  from the opponent's square: all such neighbours, not only the one straight beyond the
  opponent, the wall test being made on the step from the opponent's square to the landing
  square and nowhere else. A wall that blocks the step between the two pawns removes no
  jump: with such a wall added to the walls of the state, at any place in the collection,
  the step between the pawns is blocked and the jumps returned are the same.
\<close>

theorem wall_between_pawns_removes_no_jump:
  assumes bm: "boardMatches s"
    and pl: "playerAt s p = Some pl" and opp: "playerAt s (1 - p) = Some opp"
    and adj: "(px opp, py opp) \<in> set (getAdjacentSquares (px pl) (py pl))"
  shows "\<exists>ms. getLegalMoves s p = Inr ms \<and>
           filter (\<lambda>m. mtype m = Jump) ms
           = map (\<lambda>(sx, sy). \<lparr> mx = sx, my = sy, mtype = Jump \<rparr>)
               (filter (\<lambda>(sx, sy). \<not> (sx = px pl \<and> sy = py pl) \<and>
                                    \<not> isWallBlocking s (px opp) (py opp) sx sy)
                  (getAdjacentSquares (px opp) (py opp))) \<and>
           (\<forall>w ws.
              wallBlocks (min (px pl) (px opp)) (max (px pl) (px opp))
                         (min (py pl) (py opp)) (max (py pl) (py opp)) w \<and>
              set ws = insert w (set (walls s)) \<longrightarrow>
                isWallBlocking (s\<lparr> walls := ws \<rparr>) (px pl) (py pl) (px opp) (py opp) \<and>
                (\<exists>ms'. getLegalMoves (s\<lparr> walls := ws \<rparr>) p = Inr ms' \<and>
                        filter (\<lambda>m. mtype m = Jump) ms' = filter (\<lambda>m. mtype m = Jump) ms))"
proof -
  from jumps_on_matching_board [OF bm pl opp adj] obtain ms
    where ms: "getLegalMoves s p = Inr ms"
    and js: "filter (\<lambda>m. mtype m = Jump) ms
           = map (\<lambda>(sx, sy). \<lparr> mx = sx, my = sy, mtype = Jump \<rparr>)
               (filter (\<lambda>(sx, sy). \<not> (sx = px pl \<and> sy = py pl) \<and>
                                    \<not> isWallBlocking s (px opp) (py opp) sx sy)
                  (getAdjacentSquares (px opp) (py opp)))"
    by blast
  from adj have near: "\<bar>px pl - px opp\<bar> + \<bar>py pl - py opp\<bar> = 1"
    by (simp add: mem_getAdjacentSquares)
  have walled: "isWallBlocking (s\<lparr> walls := ws \<rparr>) (px pl) (py pl) (px opp) (py opp) \<and>
                (\<exists>ms'. getLegalMoves (s\<lparr> walls := ws \<rparr>) p = Inr ms' \<and>
                        filter (\<lambda>m. mtype m = Jump) ms' = filter (\<lambda>m. mtype m = Jump) ms)"
    if sep: "wallBlocks (min (px pl) (px opp)) (max (px pl) (px opp))
                         (min (py pl) (py opp)) (max (py pl) (py opp)) w"
      and ws: "set ws = insert w (set (walls s))" for w ws
  proof
    from sep ws show "isWallBlocking (s\<lparr> walls := ws \<rparr>) (px pl) (py pl) (px opp) (py opp)"
      by (auto simp: isWallBlocking_iff)
  next
    let ?t = "s\<lparr> walls := ws \<rparr>"
    from bm have bm': "boardMatches ?t" by (simp add: boardMatches_def)
    from pl have pl': "playerAt ?t p = Some pl" by (simp only: playerAt_walls)
    from opp have opp': "playerAt ?t (1 - p) = Some opp" by (simp only: playerAt_walls)
    from jumps_on_matching_board [OF bm' pl' opp' adj] obtain ms'
      where ms': "getLegalMoves ?t p = Inr ms'"
      and js': "filter (\<lambda>m. mtype m = Jump) ms'
           = map (\<lambda>(sx, sy). \<lparr> mx = sx, my = sy, mtype = Jump \<rparr>)
               (filter (\<lambda>(sx, sy). \<not> (sx = px pl \<and> sy = py pl) \<and>
                                    \<not> isWallBlocking ?t (px opp) (py opp) sx sy)
                  (getAdjacentSquares (px opp) (py opp)))"
      by blast
    have same: "isWallBlocking ?t (px opp) (py opp) sx sy
                = isWallBlocking s (px opp) (py opp) sx sy"
      if n: "(sx, sy) \<in> set (getAdjacentSquares (px opp) (py opp))"
        and other: "\<not> (sx = px pl \<and> sy = py pl)" for sx sy
    proof -
      from n have "\<bar>px opp - sx\<bar> + \<bar>py opp - sy\<bar> = 1"
        by (simp add: mem_getAdjacentSquares)
      from separating_wall_elsewhere [OF near this other sep]
      show ?thesis using ws by (auto simp: isWallBlocking_iff)
    qed
    have "filter (\<lambda>(sx, sy). \<not> (sx = px pl \<and> sy = py pl) \<and>
                                    \<not> isWallBlocking ?t (px opp) (py opp) sx sy)
                  (getAdjacentSquares (px opp) (py opp))
          = filter (\<lambda>(sx, sy). \<not> (sx = px pl \<and> sy = py pl) \<and>
                                    \<not> isWallBlocking s (px opp) (py opp) sx sy)
                  (getAdjacentSquares (px opp) (py opp))"
      by (rule filter_cong) (auto simp: same)
    with js js' have "filter (\<lambda>m. mtype m = Jump) ms' = filter (\<lambda>m. mtype m = Jump) ms"
      by simp
    with ms' show "\<exists>ms'. getLegalMoves ?t p = Inr ms' \<and>
                        filter (\<lambda>m. mtype m = Jump) ms' = filter (\<lambda>m. mtype m = Jump) ms"
      by blast
  qed
  from ms js walled show ?thesis by blast
qed

text \<open>Player 0 at (4,5), player 1 at (4,4). Without walls the jumps are (4,3), (3,4) and
  (5,4); with the horizontal wall at (5,5) between the pawns the step between them is
  blocked and the same three jumps are returned.\<close>

theorem wall_between_pawns_removes_no_jump_witness:
  "boardMatches (position (4, 5) (4, 4) []) \<and>
   getLegalMoves (position (4, 5) (4, 4) []) 0
     = Inr [\<lparr> mx = 4, my = 3, mtype = Jump \<rparr>, \<lparr> mx = 3, my = 4, mtype = Jump \<rparr>,
            \<lparr> mx = 5, my = 4, mtype = Jump \<rparr>, \<lparr> mx = 4, my = 6, mtype = Normal \<rparr>,
            \<lparr> mx = 3, my = 5, mtype = Normal \<rparr>, \<lparr> mx = 5, my = 5, mtype = Normal \<rparr>] \<and>
   isWallBlocking ((position (4, 5) (4, 4) [])\<lparr> walls := [\<lparr> wx = 5, wy = 5, orientation = H \<rparr>] \<rparr>)
     4 5 4 4 \<and>
   (\<exists>ms'. getLegalMoves
            ((position (4, 5) (4, 4) [])\<lparr> walls := [\<lparr> wx = 5, wy = 5, orientation = H \<rparr>] \<rparr>) 0
            = Inr ms' \<and>
          filter (\<lambda>m. mtype m = Jump) ms'
          = [\<lparr> mx = 4, my = 3, mtype = Jump \<rparr>, \<lparr> mx = 3, my = 4, mtype = Jump \<rparr>,
             \<lparr> mx = 5, my = 4, mtype = Jump \<rparr>])"
proof -
  let ?s = "position (4, 5) (4, 4) []"
  let ?w = "\<lparr> wx = 5, wy = 5, orientation = H \<rparr>"
  let ?pl = "\<lparr> pid = 1, px = 4, py = 5, pwalls = 10 \<rparr>"
  let ?opp = "\<lparr> pid = 2, px = 4, py = 4, pwalls = 10 \<rparr>"
  let ?all = "[\<lparr> mx = 4, my = 3, mtype = Jump \<rparr>, \<lparr> mx = 3, my = 4, mtype = Jump \<rparr>,
            \<lparr> mx = 5, my = 4, mtype = Jump \<rparr>, \<lparr> mx = 4, my = 6, mtype = Normal \<rparr>,
            \<lparr> mx = 3, my = 5, mtype = Normal \<rparr>, \<lparr> mx = 5, my = 5, mtype = Normal \<rparr>]"
  have bm: "boardMatches ?s" by code_simp
  have pl: "playerAt ?s 0 = Some ?pl" by code_simp
  have opp: "playerAt ?s (1 - 0) = Some ?opp" by code_simp
  have adj: "(px ?opp, py ?opp) \<in> set (getAdjacentSquares (px ?pl) (py ?pl))" by code_simp
  have ms: "getLegalMoves ?s 0 = Inr ?all" by code_simp
  have sep: "wallBlocks (min (px ?pl) (px ?opp)) (max (px ?pl) (px ?opp))
                        (min (py ?pl) (py ?opp)) (max (py ?pl) (py ?opp)) ?w"
    by code_simp
  have ws: "set [?w] = insert ?w (set (walls ?s))" by (simp add: position_fields)
  from wall_between_pawns_removes_no_jump [OF bm pl opp adj] obtain ms0
    where ms0: "getLegalMoves ?s 0 = Inr ms0"
    and inv: "\<forall>w ws.
              wallBlocks (min (px ?pl) (px ?opp)) (max (px ?pl) (px ?opp))
                         (min (py ?pl) (py ?opp)) (max (py ?pl) (py ?opp)) w \<and>
              set ws = insert w (set (walls ?s)) \<longrightarrow>
                isWallBlocking (?s\<lparr> walls := ws \<rparr>) (px ?pl) (py ?pl) (px ?opp) (py ?opp) \<and>
                (\<exists>ms'. getLegalMoves (?s\<lparr> walls := ws \<rparr>) 0 = Inr ms' \<and>
                        filter (\<lambda>m. mtype m = Jump) ms' = filter (\<lambda>m. mtype m = Jump) ms0)"
    by blast
  from ms0 ms have eq: "ms0 = ?all" by simp
  from inv sep ws
  have "isWallBlocking (?s\<lparr> walls := [?w] \<rparr>) (px ?pl) (py ?pl) (px ?opp) (py ?opp) \<and>
        (\<exists>ms'. getLegalMoves (?s\<lparr> walls := [?w] \<rparr>) 0 = Inr ms' \<and>
                filter (\<lambda>m. mtype m = Jump) ms' = filter (\<lambda>m. mtype m = Jump) ms0)"
    by blast
  with bm ms show ?thesis unfolding eq by simp
qed

section \<open>Wall counts\<close>

lemma play_reachable: "reachable s \<Longrightarrow> play s acts = Some s' \<Longrightarrow> reachable s'"
proof (induction acts arbitrary: s)
  case Nil
  then show ?case by simp
next
  case (Cons a acts)
  from Cons.prems(2) obtain s1 where a: "validated s a = Some s1" and r: "play s1 acts = Some s'"
    by (auto split: option.splits)
  from Cons.prems(1) a have "reachable s1" by (rule reachable.transition)
  from Cons.IH [OF this r] show ?case .
qed

lemma play_elevenWalls: "play createInitialState elevenWalls = Some overdrawn"
  by code_simp

text \<open>
  Claim C6, as stated, fails: \<^verbatim>\<open>isLegalWall\<close> does not look at the wall count, and
  \<^verbatim>\<open>applyWall\<close> subtracts 1 whatever the count is. Eleven walls of player 0, each approved
  by \<^verbatim>\<open>isLegalWall\<close>, with legal moves of player 1 in between, lead from the initial state
  to a state in which player 0 has \<open>-1\<close> walls.
\<close>

theorem eleven_legal_walls_overdraw:
  "play createInitialState elevenWalls = Some overdrawn \<and>
   reachable overdrawn \<and>
   pwalls (fst (players overdrawn)) = - 1"
proof -
  have "reachable overdrawn"
    using reachable.initial play_elevenWalls by (rule play_reachable)
  moreover have "pwalls (fst (players overdrawn)) = - 1" by (simp add: overdrawn_def)
  ultimately show ?thesis using play_elevenWalls by simp
qed

lemma applyMove_counts:
  assumes "applyMove s p x y = Inr s'"
  shows "pwalls (fst (players s')) = pwalls (fst (players s))"
    and "pwalls (snd (players s')) = pwalls (snd (players s))"
    and "walls s' = walls s"
  using assms
  by (auto simp: applyMove_def Let_def playerAt_def setPlayer_def
      split: option.splits sum.splits if_splits)

lemma applyWall_counts:
  assumes "applyWall s w = Inr s'"
  shows "currentPlayer s = 0 \<and>
           pwalls (fst (players s')) = pwalls (fst (players s)) - 1 \<and>
           pwalls (snd (players s')) = pwalls (snd (players s)) \<or>
         currentPlayer s = 1 \<and>
           pwalls (fst (players s')) = pwalls (fst (players s)) \<and>
           pwalls (snd (players s')) = pwalls (snd (players s)) - 1"
    and "walls s' = walls s @ [w]"
  using assms
  by (auto simp: applyWall_def Let_def playerAt_def setPlayer_def
      split: option.splits if_splits)

lemma validated_Move_counts:
  assumes "validated s (Move x y) = Some s'"
  shows "pwalls (fst (players s')) = pwalls (fst (players s))"
    and "pwalls (snd (players s')) = pwalls (snd (players s))"
    and "walls s' = walls s"
proof -
  from assms have "applyMove s (currentPlayer s) x y = Inr s'"
    by (auto split: sum.splits option.splits)
  then show "pwalls (fst (players s')) = pwalls (fst (players s))"
    and "pwalls (snd (players s')) = pwalls (snd (players s))"
    and "walls s' = walls s"
    by (rule applyMove_counts)+
qed

text \<open>A wall placed under the guard takes exactly one wall from the player to move, who had
  one, and none from the other player.\<close>

lemma guarded_Place_counts:
  assumes "guarded s (Place w) = Some s'"
  shows "currentPlayer s = 0 \<and> 0 < pwalls (fst (players s)) \<and>
           pwalls (fst (players s')) = pwalls (fst (players s)) - 1 \<and>
           pwalls (snd (players s')) = pwalls (snd (players s)) \<or>
         currentPlayer s = 1 \<and> 0 < pwalls (snd (players s)) \<and>
           pwalls (fst (players s')) = pwalls (fst (players s)) \<and>
           pwalls (snd (players s')) = pwalls (snd (players s)) - 1"
    and "walls s' = walls s @ [w]"
proof -
  from assms obtain cur where cur: "playerAt s (currentPlayer s) = Some cur"
    and pos: "0 < pwalls cur" and v: "validated s (Place w) = Some s'"
    by (auto split: option.splits if_splits)
  from v have a: "applyWall s w = Inr s'"
    by (auto split: sum.splits if_splits)
  from cur pos have "currentPlayer s = 0 \<and> 0 < pwalls (fst (players s)) \<or>
                     currentPlayer s = 1 \<and> 0 < pwalls (snd (players s))"
    by (auto simp: playerAt_def split: if_splits)
  with applyWall_counts(1) [OF a]
  show "currentPlayer s = 0 \<and> 0 < pwalls (fst (players s)) \<and>
           pwalls (fst (players s')) = pwalls (fst (players s)) - 1 \<and>
           pwalls (snd (players s')) = pwalls (snd (players s)) \<or>
         currentPlayer s = 1 \<and> 0 < pwalls (snd (players s)) \<and>
           pwalls (fst (players s')) = pwalls (fst (players s)) \<and>
           pwalls (snd (players s')) = pwalls (snd (players s)) - 1"
    by auto
  from a show "walls s' = walls s @ [w]" by (rule applyWall_counts(2))
qed

text \<open>The driver places a wall only through a guarded transition.\<close>

lemma handleWallRightClick_guarded:
  assumes "handleWallRightClick s x y = Inr s'"
  shows "s' = s \<or>
         (\<exists>pv s1. wallPreview s = Some pv \<and> guarded s (Place pv) = Some s1 \<and>
                  s' = s1\<lparr> isWallMode := False \<rparr>)"
proof (cases "s' = s")
  case True
  then show ?thesis by simp
next
  case False
  with assms obtain pv cur s1 where pv: "wallPreview s = Some pv"
    and cur: "playerAt s (currentPlayer s) = Some cur" and pos: "\<not> pwalls cur \<le> 0"
    and legal: "isLegalWall s pv = Inr True" and a: "applyWall s pv = Inr s1"
    and s': "s' = s1\<lparr> isWallMode := False \<rparr>"
    by (auto simp: handleWallRightClick_def split: option.splits sum.splits if_splits)
  from cur pos legal a have "guarded s (Place pv) = Some s1" by simp
  with pv s' show ?thesis by blast
qed

text \<open>The invariant of guarded play.\<close>

lemma guarded_counts_invariant:
  "reachableGuarded s \<Longrightarrow>
   0 \<le> pwalls (fst (players s)) \<and> pwalls (fst (players s)) \<le> 10 \<and>
   0 \<le> pwalls (snd (players s)) \<and> pwalls (snd (players s)) \<le> 10 \<and>
   pwalls (fst (players s)) + pwalls (snd (players s)) + int (length (walls s)) = 20"
proof (induction rule: reachableGuarded.induct)
  case initialG
  show ?case by (simp add: createInitialState_def Let_def)
next
  case (transitionG s a s')
  show ?case
  proof (cases a)
    case (Move x y)
    with transitionG.hyps(2) have "validated s (Move x y) = Some s'" by simp
    from validated_Move_counts [OF this] transitionG.IH show ?thesis by simp
  next
    case (Place w)
    with transitionG.hyps(2) have "guarded s (Place w) = Some s'" by simp
    from guarded_Place_counts [OF this] transitionG.IH show ?thesis by auto
  qed
qed

text \<open>
  Claim C6, as amended. In every state reachable from the initial state by transitions
  whose inputs the legality queries approved, a wall being placed only while the player to
  move has a wall left (the guard of the driver), each player's wall count is at least 0
  and at most 10, and the two counts together have gone down from 20 by exactly the number
  of walls placed; each further placement takes exactly one wall from the player who places
  it, who had one left, and none from the other player, and a further move takes none.
\<close>

theorem guarded_wall_counts:
  "reachableGuarded s \<Longrightarrow>
   0 \<le> pwalls (fst (players s)) \<and> pwalls (fst (players s)) \<le> 10 \<and>
   0 \<le> pwalls (snd (players s)) \<and> pwalls (snd (players s)) \<le> 10 \<and>
   pwalls (fst (players s)) + pwalls (snd (players s)) + int (length (walls s)) = 20 \<and>
   (\<forall>w s'. guarded s (Place w) = Some s' \<longrightarrow>
      (currentPlayer s = 0 \<and> 0 < pwalls (fst (players s)) \<and>
         pwalls (fst (players s')) = pwalls (fst (players s)) - 1 \<and>
         pwalls (snd (players s')) = pwalls (snd (players s)) \<or>
       currentPlayer s = 1 \<and> 0 < pwalls (snd (players s)) \<and>
         pwalls (fst (players s')) = pwalls (fst (players s)) \<and>
         pwalls (snd (players s')) = pwalls (snd (players s)) - 1)) \<and>
   (\<forall>x y s'. guarded s (Move x y) = Some s' \<longrightarrow>
      pwalls (fst (players s')) = pwalls (fst (players s)) \<and>
      pwalls (snd (players s')) = pwalls (snd (players s)))"
proof (intro conjI allI impI)
  assume r: "reachableGuarded s"
  from guarded_counts_invariant [OF r]
  show "0 \<le> pwalls (fst (players s))" and "pwalls (fst (players s)) \<le> 10"
    and "0 \<le> pwalls (snd (players s))" and "pwalls (snd (players s)) \<le> 10"
    and "pwalls (fst (players s)) + pwalls (snd (players s)) + int (length (walls s)) = 20"
    by simp_all
next
  fix w s' assume "guarded s (Place w) = Some s'"
  then show "currentPlayer s = 0 \<and> 0 < pwalls (fst (players s)) \<and>
         pwalls (fst (players s')) = pwalls (fst (players s)) - 1 \<and>
         pwalls (snd (players s')) = pwalls (snd (players s)) \<or>
       currentPlayer s = 1 \<and> 0 < pwalls (snd (players s)) \<and>
         pwalls (fst (players s')) = pwalls (fst (players s)) \<and>
         pwalls (snd (players s')) = pwalls (snd (players s)) - 1"
    by (rule guarded_Place_counts(1))
next
  fix x y s' assume "guarded s (Move x y) = Some s'"
  then have v: "validated s (Move x y) = Some s'" by simp
  from validated_Move_counts(1) [OF v]
  show "pwalls (fst (players s')) = pwalls (fst (players s))" .
  from validated_Move_counts(2) [OF v]
  show "pwalls (snd (players s')) = pwalls (snd (players s))" .
qed

text \<open>After player 0 has placed the horizontal wall at (4,4) in the initial state.\<close>

theorem guarded_wall_counts_witness:
  "reachableGuarded
     (createInitialState
        \<lparr> players := (\<lparr> pid = 1, px = 4, py = 8, pwalls = 9 \<rparr>,
                      \<lparr> pid = 2, px = 4, py = 0, pwalls = 10 \<rparr>),
          walls := [\<lparr> wx = 4, wy = 4, orientation = H \<rparr>],
          currentPlayer := 1 \<rparr>) \<and>
   pwalls (fst (players
     (createInitialState
        \<lparr> players := (\<lparr> pid = 1, px = 4, py = 8, pwalls = 9 \<rparr>,
                      \<lparr> pid = 2, px = 4, py = 0, pwalls = 10 \<rparr>),
          walls := [\<lparr> wx = 4, wy = 4, orientation = H \<rparr>],
          currentPlayer := 1 \<rparr>))) = 9"
proof -
  let ?s = "createInitialState
        \<lparr> players := (\<lparr> pid = 1, px = 4, py = 8, pwalls = 9 \<rparr>,
                      \<lparr> pid = 2, px = 4, py = 0, pwalls = 10 \<rparr>),
          walls := [\<lparr> wx = 4, wy = 4, orientation = H \<rparr>],
          currentPlayer := 1 \<rparr>"
  have "guarded createInitialState (Place \<lparr> wx = 4, wy = 4, orientation = H \<rparr>) = Some ?s"
    by code_simp
  with reachableGuarded.initialG have r: "reachableGuarded ?s"
    by (rule reachableGuarded.transitionG)
  have l: "length (walls ?s) = 1" by simp
  have q: "pwalls (snd (players ?s)) = 10" by simp
  from guarded_wall_counts [OF r] have "pwalls (fst (players ?s)) + pwalls (snd (players ?s))
      + int (length (walls ?s)) = 20"
    by blast
  with r show ?thesis unfolding l q by simp
qed

section \<open>After a win\<close>

text \<open>When player 1 has won, the same handlers do leave the state as it is.\<close>

lemma handlers_stop_when_player_one_won:
  assumes "winner s = Some 1"
  shows "handleSquareClick s x y = Inr s"
    and "handleWallClick s x y = Inr s"
    and "handleWallRightClick s x y = Inr s"
  using assms
  by (simp_all add: handleSquareClick_def handleWallClick_def handleWallRightClick_def
      truthyWinner_def)

text \<open>
  Claim C3 (no transition is accepted once a winner is declared, also when the winner is
  player 0) does not hold of the driver: its handlers test \<^verbatim>\<open>state.winner\<close> for truthiness,
  and the winner 0 is falsy. After the clicks of a game that player 0 wins, the state has
  winner 0; two more clicks move player 0 from (4,0) back to (4,1), which clears the winner
  and hands the turn to player 1; and in wall mode a click and a right click at (4,4) place
  a wall for player 0.
\<close>

theorem play_continues_after_player_zero_wins:
  "squareClicks createInitialState winningClicks = Inr wonGame \<and>
   winner wonGame = Some 0 \<and>
   squareClicks wonGame [(4, 0), (4, 1)]
     = Inr ((position (4, 1) (3, 6) [])\<lparr> currentPlayer := 1 \<rparr>) \<and>
   (case handleWallClick (toggleWallMode wonGame) 4 4 of
      Inl e \<Rightarrow> False
    | Inr previewed \<Rightarrow>
        (case handleWallRightClick previewed 4 4 of
           Inl e \<Rightarrow> False
         | Inr s' \<Rightarrow> walls s' = [\<lparr> wx = 4, wy = 4, orientation = H \<rparr>] \<and>
                     playerAt s' 0 = Some \<lparr> pid = 1, px = 4, py = 0, pwalls = 9 \<rparr> \<and>
                     currentPlayer s' = 1))"
  by code_simp

end
